theory Spec2Isabelle
  imports Main "HOL-Library.Word"
begin

unbundle bit_operations_syntax

chapter \<open>bplib: a shallow embedding of the channel engine, the SDNV codec, the ACS
  reader and the red-black tree of custody-id ranges\<close>

text \<open>
  Every definition below follows one C function of the repository. Memory that C reaches
  through pointers is a value that is passed in and returned; an access outside an array and
  a dereference of a null pointer are results of type \<open>fault\<close>. C \<open>int\<close> variables that
  only count bytes or index buffers are HOL integers (the buffers modelled here are lists, far
  below the range where a C \<open>int\<close> would wrap); values that the code declares with a fixed
  unsigned width are words.
\<close>

section \<open>Definitions\<close>

subsection \<open>SDNV codec (\<open>src/src/bplib_sdnv.c\<close>)\<close>

text \<open>
  \<open>bp_sdnv_t\<close> is declared in a header that is not part of the sources; the functions use its
  fields \<open>value\<close>, \<open>index\<close> and \<open>width\<close>, compare \<open>width\<close> with zero as a signed number and
  copy \<open>value\<close> into a \<open>uint32_t\<close>. The width of \<open>value\<close> is left as a parameter of the
  record. The two flag bits \<open>BP_SDNV_OVERFLOW\<close> and \<open>BP_SDNV_INCOMPLETE\<close> are only ever
  set with \<open>|=\<close>, so the flag byte is a record of two booleans.
\<close>

datatype fault = OutOfBounds | NullDeref | DivideByZero | OutOfFuel

record sdnv_flags =
  BP_SDNV_OVERFLOW :: bool
  BP_SDNV_INCOMPLETE :: bool

definition no_flags :: sdnv_flags where
  "no_flags = \<lparr>BP_SDNV_OVERFLOW = False, BP_SDNV_INCOMPLETE = False\<rparr>"

record 'v bp_sdnv_t =
  val :: 'v
  index :: int
  width :: int

text \<open>\<open>block[i]\<close> is inside the memory that \<open>block\<close> points to.\<close>

definition in_block :: "8 word list \<Rightarrow> int \<Rightarrow> bool" where
  "in_block block i = (0 \<le> i \<and> i < int (length block))"

text \<open>The \<open>for\<close> loop of \<open>bplib_sdnv_read\<close>: \<open>w\<close> is the local \<open>width\<close>, \<open>idx\<close> is
  \<open>sdnv->index\<close>, \<open>v\<close> is \<open>sdnv->value\<close>.\<close>

function sdnv_read_loop ::
  "8 word list \<Rightarrow> int \<Rightarrow> int \<Rightarrow> int \<Rightarrow> int \<Rightarrow> 'a::len word \<Rightarrow> sdnv_flags
     \<Rightarrow> fault + (int \<times> 'a word \<times> sdnv_flags)" where
  "sdnv_read_loop block sz w idx i v flags =
     (if i < w \<and> i < sz then
        (if \<not> in_block block i then Inl OutOfBounds
         else
           let b = block ! nat i;
               v' = push_bit 7 v OR ucast (b AND 0x7F)
           in if b AND 0x80 = 0x00 then Inr ((i + 1) - idx, v', flags)
              else sdnv_read_loop block sz w idx (i + 1) v'
                     (if sz < i + 2 then flags\<lparr>BP_SDNV_INCOMPLETE := True\<rparr> else flags))
      else Inr (i - idx, v, flags\<lparr>BP_SDNV_OVERFLOW := True\<rparr>))"
  by pat_completeness auto
termination
  by (relation "measure (\<lambda>(block, sz, w, idx, i, v, flags). nat (sz - i))") auto

declare sdnv_read_loop.simps [simp del]

definition bplib_sdnv_read ::
  "8 word list \<Rightarrow> int \<Rightarrow> ('a::len word) bp_sdnv_t \<Rightarrow> sdnv_flags
     \<Rightarrow> fault + (int \<times> ('a word) bp_sdnv_t \<times> sdnv_flags)" where
  "bplib_sdnv_read block sz sdnv flags =
     (let w = (if width sdnv < 0 then sz else width sdnv)
      in case sdnv_read_loop block sz w (index sdnv) (index sdnv) 0 flags of
           Inl e \<Rightarrow> Inl e
         | Inr (n, v, flags') \<Rightarrow> Inr (n, sdnv\<lparr>val := v\<rparr>, flags'))"

text \<open>The \<open>while(tmpval > 0)\<close> loop of \<open>bplib_sdnv_write\<close>.\<close>

function count_bytes :: "32 word \<Rightarrow> int \<Rightarrow> int" where
  "count_bytes tmpval maxbytes =
     (if tmpval > 0 then count_bytes (drop_bit 7 tmpval) (maxbytes + 1) else maxbytes)"
  by pat_completeness auto
termination
proof (relation "measure (\<lambda>(tmpval, maxbytes). unat tmpval)")
  show "wf (measure (\<lambda>(tmpval :: 32 word, maxbytes :: int). unat tmpval))" by simp
next
  fix tmpval :: "32 word" and maxbytes :: int
  assume "0 < tmpval"
  then have "unat tmpval \<noteq> 0" by (simp add: unat_eq_0 word_greater_zero_iff)
  then have "unat tmpval div 128 < unat tmpval" by simp
  then show "((drop_bit 7 tmpval, maxbytes + 1), (tmpval, maxbytes))
               \<in> measure (\<lambda>(tmpval, maxbytes). unat tmpval)"
    by (simp add: drop_bit_eq_div unat_div)
qed

declare count_bytes.simps [simp del]

text \<open>The \<open>for\<close> loop of \<open>bplib_sdnv_write\<close>, from \<open>maxbytes + sdnv.index\<close> down to
  \<open>sdnv.index\<close>; a byte is stored by truncating the value to eight bits.\<close>

function sdnv_write_loop ::
  "8 word list \<Rightarrow> int \<Rightarrow> int \<Rightarrow> 'a::len word \<Rightarrow> fault + (8 word list \<times> 'a word)" where
  "sdnv_write_loop block idx i v =
     (if i \<ge> idx then
        (if \<not> in_block block i then Inl OutOfBounds
         else
           let b = (if i = 0 then ucast (v AND 0x7F) else ucast (v OR 0x80))
           in sdnv_write_loop (block[nat i := b]) idx (i - 1) (drop_bit 7 v))
      else Inr (block, v))"
  by pat_completeness auto
termination
  by (relation "measure (\<lambda>(block, idx, i, v). nat (i - idx + 1))") auto

declare sdnv_write_loop.simps [simp del]

definition bplib_sdnv_write ::
  "8 word list \<Rightarrow> int \<Rightarrow> ('a::len word) bp_sdnv_t \<Rightarrow> sdnv_flags
     \<Rightarrow> fault + (int \<times> 8 word list \<times> sdnv_flags)" where
  "bplib_sdnv_write block sz sdnv flags =
     (let (maxbytes, flags1) =
            (if width sdnv \<le> 0 then (count_bytes (ucast (val sdnv)) 0, flags)
             else if width sdnv \<le> sz - index sdnv then (width sdnv, flags)
             else (sz - index sdnv, flags\<lparr>BP_SDNV_INCOMPLETE := True\<rparr>))
      in case sdnv_write_loop block (index sdnv) (maxbytes + index sdnv) (val sdnv) of
           Inl e \<Rightarrow> Inl e
         | Inr (block', v') \<Rightarrow>
             Inr (maxbytes, block',
                  if v' > 0 then flags1\<lparr>BP_SDNV_OVERFLOW := True\<rparr> else flags1))"


subsection \<open>Status codes, flags and channel data (\<open>src/lib/bplib.c\<close>)\<close>

text \<open>
  \<open>bplib.h\<close> is not part of the sources. The status codes are the ones \<open>bplib.c\<close> names;
  the specification fixes \<open>SUCCESS = 1\<close> and \<open>TIMEOUT = 0\<close> and says that every error is a
  distinct negative code, which is all that is used of the numbers below.
\<close>

definition BP_SUCCESS :: int where "BP_SUCCESS = 1"
definition BP_TIMEOUT :: int where "BP_TIMEOUT = 0"
definition BP_PARMERR :: int where "BP_PARMERR = -2"
definition BP_OVERFLOW :: int where "BP_OVERFLOW = -7"
definition BP_BUNDLEPARSEERR :: int where "BP_BUNDLEPARSEERR = -9"
definition BP_BUNDLETOOLARGE :: int where "BP_BUNDLETOOLARGE = -11"
definition BP_PAYLOADTOOLARGE :: int where "BP_PAYLOADTOOLARGE = -12"
definition BP_FAILEDSTORE :: int where "BP_FAILEDSTORE = -14"
definition BP_FAILEDMEM :: int where "BP_FAILEDMEM = -16"
definition BP_FAILEDRESPONSE :: int where "BP_FAILEDRESPONSE = -17"
definition BP_INVALIDEID :: int where "BP_INVALIDEID = -18"

lemmas bp_status_defs =
  BP_SUCCESS_def BP_TIMEOUT_def BP_PARMERR_def BP_OVERFLOW_def BP_BUNDLEPARSEERR_def
  BP_BUNDLETOOLARGE_def BP_PAYLOADTOOLARGE_def BP_FAILEDSTORE_def BP_FAILEDMEM_def
  BP_FAILEDRESPONSE_def BP_INVALIDEID_def

text \<open>\<open>bplog(code, fmt, ...)\<close> logs a message and hands back the code it was given
  (\<open>src/os/cfe.c\<close>: ``Returns - the error code passed in (for convenience)'').\<close>

definition bplog :: "int \<Rightarrow> int" where
  "bplog code = code"

text \<open>Timeout arguments of the storage service.\<close>

definition BP_CHECK :: int where "BP_CHECK = 0"

text \<open>The \<open>uint16_t\<close> flag word of a call is only ever extended with \<open>|=\<close>: a set of flags.\<close>

datatype bp_flag =
  BP_FLAG_UNRELIABLETIME | BP_FLAG_ROUTENEEDED | BP_FLAG_STOREFAILURE | BP_FLAG_ACTIVETABLEWRAP

text \<open>
  \<open>bp_val_t\<close> holds custody ids and times; \<open>bplib_load\<close> assigns it from an
  \<open>unsigned long\<close>, 64 bits on the LP64 targets of the library. A storage id is an opaque
  number; \<open>bplib_open\<close> clears the active table with \<open>memset(.., 0, ..)\<close>, so the vacant
  storage id is the zero value.
\<close>

type_synonym bp_val_t = "64 word"
type_synonym bp_sid_t = nat

definition BP_SID_VACANT :: bp_sid_t where
  "BP_SID_VACANT = 0"

definition BP_WRAP_RESEND :: int where "BP_WRAP_RESEND = 0"
definition BP_WRAP_BLOCK :: int where "BP_WRAP_BLOCK = 1"
definition BP_WRAP_DROP :: int where "BP_WRAP_DROP = 2"

definition BP_WRAP_TIMEOUT :: int where
  "BP_WRAP_TIMEOUT = 1000"

record bp_attr_t =
  lifetime :: int
  request_custody :: int
  admin_record :: int
  integrity_check :: int
  allow_fragmentation :: int
  cipher_suite :: int
  timeout :: int
  max_length :: int
  wrap_response :: int
  cid_reuse :: int
  dacs_rate :: int
  active_table_size :: int
  max_fills_per_dacs :: int
  max_gaps_per_dacs :: int
  storage_service_parm :: int

record bp_stats_t =
  lost :: "32 word"
  expired :: "32 word"
  acknowledged :: "32 word"
  transmitted :: "32 word"
  retransmitted :: "32 word"
  received :: "32 word"
  generated :: "32 word"
  delivered :: "32 word"

record bp_active_table_t =
  sid :: bp_sid_t
  retx :: bp_val_t

text \<open>Of \<open>bp_bundle_t\<close> the functions below use the two storage handles and \<open>prebuilt\<close>; the
  storage service's function table is passed separately (\<open>bp_store_t\<close> below).\<close>

record bp_bundle_t =
  bundle_handle :: int
  payload_handle :: int
  prebuilt :: bool

record bp_custody_t =
  custody_bundle :: bp_bundle_t

text \<open>The channel control block. (\<open>attributes\<close> and \<open>bundle\<close> are reserved words here,
  hence the prefix on these two fields.)\<close>

record bp_channel_t =
  ch_attributes :: bp_attr_t
  ch_bundle :: bp_bundle_t
  custody :: bp_custody_t
  oldest_active_cid :: bp_val_t
  current_active_cid :: bp_val_t
  active_table_signal :: int
  active_table :: "bp_active_table_t list"
  stats :: bp_stats_t

subsection \<open>\<open>bplib_config\<close> and \<open>bundle_send\<close>\<close>

text \<open>The options of the \<open>switch\<close> in \<open>bplib_config\<close>; any other number takes the
  \<open>default\<close> branch.\<close>

datatype bp_opt =
  BP_OPT_LIFETIME | BP_OPT_REQUEST_CUSTODY | BP_OPT_ADMIN_RECORD | BP_OPT_INTEGRITY_CHECK
| BP_OPT_ALLOW_FRAGMENTATION | BP_OPT_CIPHER_SUITE | BP_OPT_TIMEOUT | BP_OPT_MAX_LENGTH
| BP_OPT_WRAP_RESPONSE | BP_OPT_CID_REUSE | BP_OPT_DACS_RATE | BP_OPT_OTHER int

definition BP_OPT_MODE_READ :: int where "BP_OPT_MODE_READ = 0"
definition BP_OPT_MODE_WRITE :: int where "BP_OPT_MODE_WRITE = 1"

definition sizeof_int :: int where
  "sizeof_int = 4"

text \<open>One integer option: \<open>rd\<close> reads the attribute, \<open>wr\<close> writes it, \<open>ok\<close> is the check
  of the value made when writing. The result is the break out of the \<open>switch\<close> (\<open>Inr\<close>) or
  the early \<open>return BP_PARMERR\<close> (\<open>Inl\<close>).\<close>

definition config_int ::
  "bool \<Rightarrow> int \<Rightarrow> int \<Rightarrow> (int \<Rightarrow> bool) \<Rightarrow> (bp_attr_t \<Rightarrow> int) \<Rightarrow> (int \<Rightarrow> bp_attr_t \<Rightarrow> bp_attr_t)
     \<Rightarrow> bp_attr_t \<Rightarrow> int + (bp_attr_t \<times> int)" where
  "config_int setopt len v ok rd wr attr =
     (if len \<noteq> sizeof_int then Inl BP_PARMERR
      else if setopt \<and> \<not> ok v then Inl BP_PARMERR
      else if setopt then Inr (wr v attr, v)
      else Inr (attr, rd attr))"

definition is_bool_val :: "int \<Rightarrow> bool" where
  "is_bool_val v = (v = 1 \<or> v = 0)"

definition is_wrap_val :: "int \<Rightarrow> bool" where
  "is_wrap_val v = (v = BP_WRAP_RESEND \<or> v = BP_WRAP_BLOCK \<or> v = BP_WRAP_DROP)"

fun config_switch ::
  "bp_opt \<Rightarrow> bool \<Rightarrow> int \<Rightarrow> int \<Rightarrow> bp_attr_t \<Rightarrow> int + (bp_attr_t \<times> int)" where
  "config_switch BP_OPT_LIFETIME s len v a =
     config_int s len v (\<lambda>_. True) lifetime (\<lambda>x a. a\<lparr>lifetime := x\<rparr>) a"
| "config_switch BP_OPT_REQUEST_CUSTODY s len v a =
     config_int s len v is_bool_val request_custody (\<lambda>x a. a\<lparr>request_custody := x\<rparr>) a"
| "config_switch BP_OPT_ADMIN_RECORD s len v a =
     config_int s len v is_bool_val admin_record (\<lambda>x a. a\<lparr>admin_record := x\<rparr>) a"
| "config_switch BP_OPT_INTEGRITY_CHECK s len v a =
     config_int s len v is_bool_val integrity_check (\<lambda>x a. a\<lparr>integrity_check := x\<rparr>) a"
| "config_switch BP_OPT_ALLOW_FRAGMENTATION s len v a =
     config_int s len v is_bool_val allow_fragmentation
       (\<lambda>x a. a\<lparr>allow_fragmentation := x\<rparr>) a"
| "config_switch BP_OPT_CIPHER_SUITE s len v a =
     config_int s len v (\<lambda>_. True) cipher_suite (\<lambda>x a. a\<lparr>cipher_suite := x\<rparr>) a"
| "config_switch BP_OPT_TIMEOUT s len v a =
     config_int s len v (\<lambda>_. True) timeout (\<lambda>x a. a\<lparr>timeout := x\<rparr>) a"
| "config_switch BP_OPT_MAX_LENGTH s len v a =
     config_int s len v (\<lambda>_. True) max_length (\<lambda>x a. a\<lparr>max_length := x\<rparr>) a"
| "config_switch BP_OPT_WRAP_RESPONSE s len v a =
     config_int s len v is_wrap_val wrap_response (\<lambda>x a. a\<lparr>wrap_response := x\<rparr>) a"
| "config_switch BP_OPT_CID_REUSE s len v a =
     config_int s len v is_bool_val cid_reuse (\<lambda>x a. a\<lparr>cid_reuse := x\<rparr>) a"
| "config_switch BP_OPT_DACS_RATE s len v a =
     config_int s len v (\<lambda>_. True) dacs_rate (\<lambda>x a. a\<lparr>dacs_rate := x\<rparr>) a"
| "config_switch (BP_OPT_OTHER n) s len v a = Inl (bplog BP_PARMERR)"

text \<open>\<open>bplib_config\<close>: \<open>None\<close> is a null \<open>channel\<close> or \<open>val\<close> pointer. The result is the
  status, the channel and the integer that \<open>val\<close> points to afterwards.\<close>

definition bplib_config ::
  "bp_channel_t option \<Rightarrow> int \<Rightarrow> bp_opt \<Rightarrow> int option \<Rightarrow> int
     \<Rightarrow> int \<times> bp_channel_t option \<times> int option" where
  "bplib_config channel mode opt valp len =
     (case channel of
        None \<Rightarrow> (BP_PARMERR, channel, valp)
      | Some ch \<Rightarrow>
          (case valp of
             None \<Rightarrow> (BP_PARMERR, channel, valp)
           | Some v \<Rightarrow>
               let setopt = (mode = BP_OPT_MODE_WRITE) in
               (case config_switch opt setopt len v (ch_attributes ch) of
                  Inl err \<Rightarrow> (err, channel, valp)
                | Inr (attr', v') \<Rightarrow>
                    let ch1 = ch\<lparr>ch_attributes := attr'\<rparr>;
                        ch2 = (if setopt then ch1\<lparr>ch_bundle := (ch_bundle ch1)\<lparr>prebuilt := True\<rparr>\<rparr>
                               else ch1)
                    in (BP_SUCCESS, Some ch2, Some v'))))"

text \<open>\<open>bundle_send\<close> (\<open>src/lib/bundle.c\<close>). \<open>v6_build\<close> and \<open>v6_write\<close> live in a file that
  is not part of the sources; they are parameters, acting on the bundle and on whatever
  else they touch (\<open>'w\<close>).\<close>

definition bundle_send ::
  "(bp_bundle_t \<Rightarrow> 'w \<Rightarrow> bp_bundle_t \<times> 'w) \<Rightarrow> (bp_bundle_t \<Rightarrow> 'p \<Rightarrow> 'w \<Rightarrow> int \<times> bp_bundle_t \<times> 'w)
     \<Rightarrow> bp_bundle_t \<Rightarrow> 'p \<Rightarrow> 'w \<Rightarrow> int \<times> bp_bundle_t \<times> 'w" where
  "bundle_send v6_build v6_write b pay w =
     (let (b1, w1) = (if prebuilt b = False then v6_build b w else (b, w))
      in v6_write b1 pay w1)"

text \<open>A build and a write that only record that they ran, to observe which of the two
  \<open>bundle_send\<close> calls. As in the library, a build leaves the template marked prebuilt.\<close>

datatype v6_call = V6_BUILD | V6_WRITE

definition log_build :: "bp_bundle_t \<Rightarrow> v6_call list \<Rightarrow> bp_bundle_t \<times> v6_call list" where
  "log_build b w = (b\<lparr>prebuilt := True\<rparr>, w @ [V6_BUILD])"

definition log_write ::
  "bp_bundle_t \<Rightarrow> 'p \<Rightarrow> v6_call list \<Rightarrow> int \<times> bp_bundle_t \<times> v6_call list" where
  "log_write b pay w = (BP_SUCCESS, b, w @ [V6_WRITE])"

definition default_attributes :: bp_attr_t where
  "default_attributes =
     \<lparr>lifetime = 0, request_custody = 1, admin_record = 0, integrity_check = 1,
      allow_fragmentation = 0, cipher_suite = 1, timeout = 10, max_length = 4096,
      wrap_response = BP_WRAP_RESEND, cid_reuse = 0, dacs_rate = 5, active_table_size = 4,
      max_fills_per_dacs = 64, max_gaps_per_dacs = 1028, storage_service_parm = 0\<rparr>"

definition zero_stats :: bp_stats_t where
  "zero_stats = \<lparr>lost = 0, expired = 0, acknowledged = 0, transmitted = 0, retransmitted = 0,
     received = 0, generated = 0, delivered = 0\<rparr>"

definition vacant_entry :: bp_active_table_t where
  "vacant_entry = \<lparr>sid = BP_SID_VACANT, retx = 0\<rparr>"

text \<open>The channel as \<open>bplib_open\<close> leaves it, for given attributes and storage handles: the
  active table zeroed, both custody ids at 1, the template built.\<close>

definition open_channel :: "bp_attr_t \<Rightarrow> int \<Rightarrow> int \<Rightarrow> int \<Rightarrow> bp_channel_t" where
  "open_channel attr bh ph dh =
     \<lparr>ch_attributes = attr,
      ch_bundle = \<lparr>bundle_handle = bh, payload_handle = ph, prebuilt = True\<rparr>,
      custody = \<lparr>custody_bundle = \<lparr>bundle_handle = dh, payload_handle = -1, prebuilt = True\<rparr>\<rparr>,
      oldest_active_cid = 1, current_active_cid = 1, active_table_signal = 1,
      active_table = replicate (nat (active_table_size attr)) vacant_entry,
      stats = zero_stats\<rparr>"

subsection \<open>The storage service and \<open>bplib_accept\<close>\<close>

text \<open>
  \<open>bp_store_t\<close> is a table of function pointers supplied by the application. Its storage is
  a state \<open>'st\<close> that each call receives and returns; \<open>'d\<close> is what a stored object is read
  as (payload bytes in \<open>bplib_accept\<close>, a bundle descriptor in \<open>bplib_load\<close>). A call gives
  back its status and what it wrote through its output pointers (\<open>None\<close>: it wrote
  nothing); the library always has the data pointer at \<open>NULL\<close> when it calls.
  \<^item> \<open>dequeue handle timeout\<close>: status, and the object, its size and its storage id;
  \<^item> \<open>retrieve handle sid timeout\<close>: status and the object;
  \<^item> \<open>relinquish handle sid\<close>: status.
\<close>

record ('st, 'd) bp_store_t =
  dequeue :: "int \<Rightarrow> int \<Rightarrow> 'st \<Rightarrow> (int \<times> ('d \<times> int \<times> bp_sid_t) option) \<times> 'st"
  retrieve :: "int \<Rightarrow> bp_sid_t \<Rightarrow> int \<Rightarrow> 'st \<Rightarrow> (int \<times> 'd option) \<times> 'st"
  relinquish :: "int \<Rightarrow> bp_sid_t \<Rightarrow> 'st \<Rightarrow> int \<times> 'st"

text \<open>\<open>memcpy(dst, src, n)\<close> on byte lists; reading or writing past either one is a fault.\<close>

definition memcpy :: "8 word list \<Rightarrow> 8 word list \<Rightarrow> int \<Rightarrow> fault + 8 word list" where
  "memcpy dst src n =
     (if n \<le> 0 then Inr dst
      else if int (length src) < n \<or> int (length dst) < n then Inl OutOfBounds
      else Inr (take (nat n) src @ drop (nat n) dst))"

text \<open>
  \<open>bplib_accept\<close>. \<open>payload\<close> is the \<open>void**\<close> argument: \<open>None\<close> is a null \<open>payload\<close>,
  \<open>Some None\<close> a null \<open>*payload\<close> (the library allocates), \<open>Some (Some buf)\<close> the caller's
  buffer. \<open>malloc_ok\<close> says whether an allocation made by this call succeeds; the block it
  returns has exactly the requested size. The result is the status, the channel, the
  buffer \<open>*payload\<close> points to afterwards and the storage.
\<close>

definition bplib_accept ::
  "('st, 8 word list) bp_store_t \<Rightarrow> bool \<Rightarrow> bp_channel_t option \<Rightarrow> 8 word list option option
     \<Rightarrow> int \<Rightarrow> int \<Rightarrow> bp_flag set option \<Rightarrow> 'st
     \<Rightarrow> fault + (int \<times> bp_channel_t option \<times> 8 word list option option \<times> 'st)" where
  "bplib_accept store malloc_ok channel payload sz tmo flags st =
     (case channel of
        None \<Rightarrow> Inr (BP_PARMERR, channel, payload, st)
      | Some ch \<Rightarrow>
     (case payload of
        None \<Rightarrow> Inr (BP_PARMERR, channel, payload, st)
      | Some buf \<Rightarrow>
     (case flags of
        None \<Rightarrow> Inr (BP_PARMERR, channel, payload, st)
      | Some _ \<Rightarrow>
          let ((deqstat, out), st1) = dequeue store (payload_handle (ch_bundle ch)) tmo st in
          if deqstat > 0 then
            (case out of
               None \<Rightarrow> Inl NullDeref
             | Some (payptr, paylen, sid1) \<Rightarrow>
                 if buf = None \<or> sz \<ge> paylen then
                   (let buf1 = (if buf = None
                                then (if malloc_ok then Some (replicate (nat paylen) 0) else None)
                                else buf)
                    in case buf1 of
                         Some dst \<Rightarrow>
                           (case memcpy dst payptr paylen of
                              Inl e \<Rightarrow> Inl e
                            | Inr dst' \<Rightarrow>
                                let ch1 = ch\<lparr>stats := (stats ch)\<lparr>delivered := delivered (stats ch) + 1\<rparr>\<rparr>;
                                    (_, st2) = relinquish store (payload_handle (ch_bundle ch)) sid1 st1
                                in Inr (paylen, Some ch1, Some (Some dst'), st2))
                       | None \<Rightarrow>
                           let status = bplog BP_FAILEDMEM;
                               ch1 = ch\<lparr>stats := (stats ch)\<lparr>lost := lost (stats ch) + 1\<rparr>\<rparr>;
                               (_, st2) = relinquish store (payload_handle (ch_bundle ch)) sid1 st1
                           in Inr (status, Some ch1, Some None, st2))
                 else
                   let status = bplog BP_PAYLOADTOOLARGE;
                       ch1 = ch\<lparr>stats := (stats ch)\<lparr>lost := lost (stats ch) + 1\<rparr>\<rparr>;
                       (_, st2) = relinquish store (payload_handle (ch_bundle ch)) sid1 st1
                   in Inr (status, Some ch1, payload, st2))
          else Inr (deqstat, channel, payload, st1))))"

text \<open>
  Modelled from the spec: the storage service itself is supplied by the application and is
  not part of the sources. This is a storage in memory that does what section 6 of the
  specification asks of one: per handle, a queue of objects awaiting \<open>dequeue\<close> and the
  objects that were handed out and are retained until \<open>relinquish\<close>; \<open>dequeue\<close> on an empty
  queue times out. It serves as the concrete storage in the examples.
\<close>

record 'd ram_store =
  pending :: "(bp_sid_t \<times> 'd) list"
  retained :: "(bp_sid_t \<times> 'd) list"

definition ram_dequeue ::
  "('d \<Rightarrow> int) \<Rightarrow> int \<Rightarrow> int \<Rightarrow> (int \<Rightarrow> 'd ram_store)
     \<Rightarrow> (int \<times> ('d \<times> int \<times> bp_sid_t) option) \<times> (int \<Rightarrow> 'd ram_store)" where
  "ram_dequeue size_of h tmo st =
     (case pending (st h) of
        [] \<Rightarrow> ((BP_TIMEOUT, None), st)
      | (s, d) # q \<Rightarrow>
          ((BP_SUCCESS, Some (d, size_of d, s)),
           st(h := \<lparr>pending = q, retained = retained (st h) @ [(s, d)]\<rparr>)))"

definition ram_retrieve ::
  "int \<Rightarrow> bp_sid_t \<Rightarrow> int \<Rightarrow> (int \<Rightarrow> 'd ram_store) \<Rightarrow> (int \<times> 'd option) \<times> (int \<Rightarrow> 'd ram_store)" where
  "ram_retrieve h s tmo st =
     (case map_of (retained (st h)) s of
        None \<Rightarrow> ((BP_FAILEDSTORE, None), st)
      | Some d \<Rightarrow> ((BP_SUCCESS, Some d), st))"

definition ram_relinquish ::
  "int \<Rightarrow> bp_sid_t \<Rightarrow> (int \<Rightarrow> 'd ram_store) \<Rightarrow> int \<times> (int \<Rightarrow> 'd ram_store)" where
  "ram_relinquish h s st =
     (if s \<in> fst ` set (retained (st h))
      then (BP_SUCCESS, st(h := (st h)\<lparr>retained := filter (\<lambda>e. fst e \<noteq> s) (retained (st h))\<rparr>))
      else (BP_FAILEDSTORE, st))"

definition ram_service :: "('d \<Rightarrow> int) \<Rightarrow> (int \<Rightarrow> 'd ram_store, 'd) bp_store_t" where
  "ram_service size_of =
     \<lparr>dequeue = ram_dequeue size_of, retrieve = ram_retrieve, relinquish = ram_relinquish\<rparr>"

definition empty_ram :: "int \<Rightarrow> 'd ram_store" where
  "empty_ram = (\<lambda>h. \<lparr>pending = [], retained = []\<rparr>)"

subsection \<open>The active table: \<open>acknowledge\<close>, \<open>bplib_flush\<close> and \<open>bplib_load\<close>\<close>

text \<open>Of a stored bundle (\<open>bp_bundle_data_t\<close>) \<open>bplib_load\<close> reads the expiration time, the
  offset of the CTEB (zero when the bundle does not ask for custody), the size and the
  bytes.\<close>

record bp_bundle_data_t =
  exprtime :: bp_val_t
  cteboffset :: int
  bundlesize :: int
  header :: "8 word list"

text \<open>Calls into the operating-system layer that matter to a caller are recorded in order.\<close>

datatype os_event = OS_LOCK int | OS_UNLOCK int | OS_WAITON int int | OS_SIGNAL int

text \<open>
  What \<open>bplib_load\<close> calls outside \<open>bplib.c\<close>: the storage service, \<open>custody_send\<close>
  (\<open>custody.c\<close>) and \<open>bundle_update\<close> (\<open>v6_update\<close>), neither part of the sources.
  \<open>bundle_update\<close> patches the custody id into the bundle in the storage's own memory;
  \<open>env_poke handle sid d\<close> is that write into the retained object.
\<close>

record 'st bp_env =
  env_store :: "('st, bp_bundle_data_t) bp_store_t"
  env_custody_send ::
    "bp_custody_t \<Rightarrow> int \<Rightarrow> bp_val_t \<Rightarrow> int \<Rightarrow> bp_flag set \<Rightarrow> 'st \<Rightarrow> bp_custody_t \<times> bp_flag set \<times> 'st"
  env_bundle_update ::
    "bp_bundle_data_t \<Rightarrow> bp_val_t \<Rightarrow> bp_flag set \<Rightarrow> bp_bundle_data_t \<times> bp_flag set"
  env_poke :: "int \<Rightarrow> bp_sid_t \<Rightarrow> bp_bundle_data_t \<Rightarrow> 'st \<Rightarrow> 'st"

text \<open>\<open>cid % active_table_size\<close> stored in an \<open>int\<close>: the size is converted to the unsigned
  64-bit type of the custody id, and the remainder is cut to 32 bits.\<close>

definition ati_of :: "bp_val_t \<Rightarrow> int \<Rightarrow> fault + int" where
  "ati_of cid n =
     (if n = 0 then Inl DivideByZero
      else Inr (sint (ucast (cid mod word_of_int n) :: 32 word)))"

definition in_table :: "bp_active_table_t list \<Rightarrow> int \<Rightarrow> bool" where
  "in_table tbl i = (0 \<le> i \<and> i < int (length tbl))"

definition set_sid :: "bp_active_table_t list \<Rightarrow> int \<Rightarrow> bp_sid_t \<Rightarrow> bp_active_table_t list" where
  "set_sid tbl i s = tbl[nat i := (tbl ! nat i)\<lparr>sid := s\<rparr>]"

definition set_retx :: "bp_active_table_t list \<Rightarrow> int \<Rightarrow> bp_val_t \<Rightarrow> bp_active_table_t list" where
  "set_retx tbl i t = tbl[nat i := (tbl ! nat i)\<lparr>retx := t\<rparr>]"

text \<open>\<open>acknowledge\<close>, the callback handed to the ACS reader.\<close>

definition acknowledge ::
  "('st, 'd) bp_store_t \<Rightarrow> bp_val_t \<Rightarrow> bp_channel_t \<times> 'st \<Rightarrow> fault + (int \<times> bp_channel_t \<times> 'st)" where
  "acknowledge store cid cs =
     (let (ch, st) = cs in
      case ati_of cid (active_table_size (ch_attributes ch)) of
        Inl e \<Rightarrow> Inl e
      | Inr ati \<Rightarrow>
          if \<not> in_table (active_table ch) ati then Inl OutOfBounds
          else
            let s = sid (active_table ch ! nat ati) in
            if s \<noteq> BP_SID_VACANT then
              let (status, st1) = relinquish store (bundle_handle (ch_bundle ch)) s st
              in Inr (status, ch\<lparr>active_table := set_sid (active_table ch) ati BP_SID_VACANT\<rparr>, st1)
            else Inr (BP_FAILEDRESPONSE, ch, st))"

text \<open>One pass of the loop of \<open>bplib_flush\<close>.\<close>

definition flush_step ::
  "('st, 'd) bp_store_t \<Rightarrow> bp_channel_t \<times> 'st \<Rightarrow> fault + (bp_channel_t \<times> 'st)" where
  "flush_step store cs =
     (let (ch, st) = cs in
      case ati_of (oldest_active_cid ch) (active_table_size (ch_attributes ch)) of
        Inl e \<Rightarrow> Inl e
      | Inr ati \<Rightarrow>
          if \<not> in_table (active_table ch) ati then Inl OutOfBounds
          else
            let s = sid (active_table ch ! nat ati);
                (ch1, st1) =
                  (if s \<noteq> BP_SID_VACANT then
                     (ch\<lparr>active_table := set_sid (active_table ch) ati BP_SID_VACANT,
                         stats := (stats ch)\<lparr>lost := lost (stats ch) + 1\<rparr>\<rparr>,
                      snd (relinquish store (bundle_handle (ch_bundle ch)) s st))
                   else (ch, st))
            in Inr (ch1\<lparr>oldest_active_cid := oldest_active_cid ch1 + 1\<rparr>, st1))"

function flush_loop ::
  "('st, 'd) bp_store_t \<Rightarrow> bp_channel_t \<times> 'st \<Rightarrow> fault + (bp_channel_t \<times> 'st)" where
  "flush_loop store cs =
     (if oldest_active_cid (fst cs) \<noteq> current_active_cid (fst cs) then
        (case flush_step store cs of
           Inl e \<Rightarrow> Inl e
         | Inr cs' \<Rightarrow> flush_loop store cs')
      else Inr cs)"
  by pat_completeness auto

lemma unat_diff_suc:
  fixes a b :: "'a::len word"
  assumes "b \<noteq> a"
  shows "unat (a - (b + 1)) < unat (a - b)"
proof -
  have nz: "a - b \<noteq> 0" using assms by simp
  have e: "a - (b + 1) = (a - b) - 1" by simp
  have "unat ((a - b) - 1) = unat (a - b) - 1" using nz by (rule unat_minus_one)
  moreover have "unat (a - b) \<noteq> 0" using nz by (simp add: unat_eq_zero)
  ultimately show ?thesis unfolding e by linarith
qed

lemma flush_step_current:
  "flush_step store cs = Inr cs' \<Longrightarrow>
     current_active_cid (fst cs') = current_active_cid (fst cs)
     \<and> oldest_active_cid (fst cs') = oldest_active_cid (fst cs) + 1"
  by (auto simp: flush_step_def Let_def split: sum.splits if_splits prod.splits)

termination flush_loop
proof (relation "measure (\<lambda>(store, cs). unat (current_active_cid (fst cs) - oldest_active_cid (fst cs)))")
  show "wf (measure (\<lambda>(store :: ('a, 'b) bp_store_t, cs :: bp_channel_t \<times> 'a).
              unat (current_active_cid (fst cs) - oldest_active_cid (fst cs))))" by simp
next
  fix store :: "('a, 'b) bp_store_t" and cs cs' :: "bp_channel_t \<times> 'a"
  assume "oldest_active_cid (fst cs) \<noteq> current_active_cid (fst cs)"
     and "flush_step store cs = Inr cs'"
  then show "((store, cs'), (store, cs))
      \<in> measure (\<lambda>(store, cs). unat (current_active_cid (fst cs) - oldest_active_cid (fst cs)))"
    using flush_step_current [of store cs cs'] unat_diff_suc by auto
qed

declare flush_loop.simps [simp del]

text \<open>\<open>bplib_flush\<close>: status, channel, storage and the lock calls made.\<close>

definition bplib_flush ::
  "('st, 'd) bp_store_t \<Rightarrow> bp_channel_t option \<Rightarrow> 'st \<Rightarrow> os_event list
     \<Rightarrow> fault + (int \<times> bp_channel_t option \<times> 'st \<times> os_event list)" where
  "bplib_flush store channel st os =
     (case channel of
        None \<Rightarrow> Inr (BP_PARMERR, channel, st, os)
      | Some ch \<Rightarrow>
          (case flush_loop store (ch, st) of
             Inl e \<Rightarrow> Inl e
           | Inr (ch1, st1) \<Rightarrow>
               Inr (BP_SUCCESS, Some ch1, st1,
                    os @ [OS_LOCK (active_table_signal ch), OS_UNLOCK (active_table_signal ch)])))"

text \<open>The local variables of \<open>bplib_load\<close>, with the channel, the storage and the record
  of operating-system calls.\<close>

record 'st load_vars =
  lv_status :: int
  lv_data :: "bp_bundle_data_t option"
  lv_sid :: bp_sid_t
  lv_ati :: int
  lv_newcid :: bool
  lv_flags :: "bp_flag set"
  lv_ch :: bp_channel_t
  lv_st :: 'st
  lv_os :: "os_event list"

definition bump_oldest :: "bp_channel_t \<Rightarrow> bp_channel_t" where
  "bump_oldest ch = ch\<lparr>oldest_active_cid := oldest_active_cid ch + 1\<rparr>"

definition clear_entry :: "int \<Rightarrow> bp_channel_t \<Rightarrow> bp_channel_t" where
  "clear_entry ati ch = ch\<lparr>active_table := set_sid (active_table ch) ati BP_SID_VACANT\<rparr>"

definition count_lost :: "bp_channel_t \<Rightarrow> bp_channel_t" where
  "count_lost ch = ch\<lparr>stats := (stats ch)\<lparr>lost := lost (stats ch) + 1\<rparr>\<rparr>"

definition count_expired :: "bp_channel_t \<Rightarrow> bp_channel_t" where
  "count_expired ch = ch\<lparr>stats := (stats ch)\<lparr>expired := expired (stats ch) + 1\<rparr>\<rparr>"

definition count_retransmitted :: "bp_channel_t \<Rightarrow> bp_channel_t" where
  "count_retransmitted ch =
     ch\<lparr>stats := (stats ch)\<lparr>retransmitted := retransmitted (stats ch) + 1\<rparr>\<rparr>"

definition count_transmitted :: "bp_channel_t \<Rightarrow> bp_channel_t" where
  "count_transmitted ch = ch\<lparr>stats := (stats ch)\<lparr>transmitted := transmitted (stats ch) + 1\<rparr>\<rparr>"

text \<open>
  The branch ``oldest active bundle still active'' of the scan: the check that the slot
  of the current custody id is free, and the three wrap responses. \<open>st1\<close> is the storage
  after the retrieval of the oldest bundle. The scan ends after this branch (\<open>break\<close>).
\<close>

definition wrap_check :: "'st bp_env \<Rightarrow> int \<Rightarrow> 'st \<Rightarrow> 'st load_vars \<Rightarrow> fault + 'st load_vars" where
  "wrap_check env handle st1 v =
     (let ch = lv_ch v; attr = ch_attributes ch in
      case ati_of (current_active_cid ch) (active_table_size attr) of
        Inl e \<Rightarrow> Inl e
      | Inr ati \<Rightarrow>
          if \<not> in_table (active_table ch) ati then Inl OutOfBounds
          else
            let s = sid (active_table ch ! nat ati);
                v1 = v\<lparr>lv_data := None, lv_ati := ati, lv_sid := s, lv_st := st1\<rparr>
            in
            if s \<noteq> BP_SID_VACANT then
              (let v2 = v1\<lparr>lv_flags := insert BP_FLAG_ACTIVETABLEWRAP (lv_flags v1)\<rparr> in
               if wrap_response attr = BP_WRAP_RESEND then
                 (let ch1 = bump_oldest ch;
                      ((rstat, out), st2) = retrieve (env_store env) handle s BP_CHECK st1
                  in if rstat \<noteq> BP_SUCCESS then
                       Inr (v2\<lparr>lv_data := out,
                               lv_ch := count_lost (clear_entry ati ch1),
                               lv_st := snd (relinquish (env_store env) handle s st2),
                               lv_flags := insert BP_FLAG_STOREFAILURE (lv_flags v2)\<rparr>)
                     else
                       Inr (v2\<lparr>lv_data := out,
                               lv_ch := count_retransmitted ch1,
                               lv_st := st2,
                               lv_os := lv_os v2 @ [OS_WAITON (active_table_signal ch) BP_WRAP_TIMEOUT]\<rparr>))
               else if wrap_response attr = BP_WRAP_BLOCK then
                 Inr (v2\<lparr>lv_status := BP_OVERFLOW,
                         lv_os := lv_os v2 @ [OS_WAITON (active_table_signal ch) BP_WRAP_TIMEOUT]\<rparr>)
               else
                 Inr (v2\<lparr>lv_ch := count_lost (clear_entry ati (bump_oldest ch)),
                         lv_st := snd (relinquish (env_store env) handle s st1)\<rparr>))
            else Inr v1)"

text \<open>One pass of the loop ``Try to Send Timed-out Bundle''. The boolean says whether
  control returns to the loop condition (\<open>True\<close>) or leaves through \<open>break\<close>.\<close>

definition scan_step ::
  "'st bp_env \<Rightarrow> int \<Rightarrow> bp_val_t \<Rightarrow> 'st load_vars \<Rightarrow> fault + ('st load_vars \<times> bool)" where
  "scan_step env handle sysnow v =
     (let ch = lv_ch v; attr = ch_attributes ch in
      case ati_of (oldest_active_cid ch) (active_table_size attr) of
        Inl e \<Rightarrow> Inl e
      | Inr ati \<Rightarrow>
          if \<not> in_table (active_table ch) ati then Inl OutOfBounds
          else
            let s = sid (active_table ch ! nat ati);
                v0 = v\<lparr>lv_ati := ati, lv_sid := s\<rparr>
            in
            if s = BP_SID_VACANT then Inr (v0\<lparr>lv_ch := bump_oldest ch\<rparr>, True)
            else
              let ((rstat, out), st1) = retrieve (env_store env) handle s BP_CHECK (lv_st v) in
              if rstat = BP_SUCCESS then
                (case out of
                   None \<Rightarrow> Inl NullDeref
                 | Some d \<Rightarrow>
                     if exprtime d \<noteq> 0 \<and> sysnow \<ge> exprtime d then
                       Inr (v0\<lparr>lv_data := None,
                               lv_ch := count_expired (bump_oldest (clear_entry ati ch)),
                               lv_st := snd (relinquish (env_store env) handle s st1)\<rparr>, True)
                     else if timeout attr \<noteq> 0
                             \<and> sysnow \<ge> retx (active_table ch ! nat ati) + word_of_int (timeout attr) then
                       (let ch1 = count_retransmitted (bump_oldest ch) in
                        if cid_reuse attr \<noteq> 0 then
                          Inr (v0\<lparr>lv_data := Some d, lv_newcid := False, lv_ch := ch1, lv_st := st1\<rparr>,
                               True)
                        else
                          Inr (v0\<lparr>lv_data := Some d, lv_ch := clear_entry ati ch1, lv_st := st1\<rparr>,
                               True))
                     else
                       (case wrap_check env handle st1 v0 of
                          Inl e \<Rightarrow> Inl e
                        | Inr v' \<Rightarrow> Inr (v', False)))
              else
                Inr (v0\<lparr>lv_data := out,
                        lv_ch := count_lost (clear_entry ati ch),
                        lv_st := snd (relinquish (env_store env) handle s st1),
                        lv_flags := insert BP_FLAG_STOREFAILURE (lv_flags v0)\<rparr>, True))"

function scan_loop ::
  "'st bp_env \<Rightarrow> int \<Rightarrow> bp_val_t \<Rightarrow> 'st load_vars \<Rightarrow> fault + 'st load_vars" where
  "scan_loop env handle sysnow v =
     (if lv_data v = None \<and> oldest_active_cid (lv_ch v) \<noteq> current_active_cid (lv_ch v) then
        (case scan_step env handle sysnow v of
           Inl e \<Rightarrow> Inl e
         | Inr (v', again) \<Rightarrow> if again then scan_loop env handle sysnow v' else Inr v')
      else Inr v)"
  by pat_completeness auto

text \<open>The scan ends: each pass that returns to the loop condition either advances the oldest
  custody id towards the current one or vacates the slot of the oldest custody id.\<close>

definition scan_measure :: "bp_channel_t \<Rightarrow> nat" where
  "scan_measure ch =
     2 * unat (current_active_cid ch - oldest_active_cid ch)
     + (case ati_of (oldest_active_cid ch) (active_table_size (ch_attributes ch)) of
          Inl e \<Rightarrow> 0
        | Inr ati \<Rightarrow>
            if in_table (active_table ch) ati \<and> sid (active_table ch ! nat ati) \<noteq> BP_SID_VACANT
            then 1 else 0)"

lemma scan_measure_bump:
  assumes "oldest_active_cid ch \<noteq> current_active_cid ch"
      and "current_active_cid ch' = current_active_cid ch"
      and "oldest_active_cid ch' = oldest_active_cid ch + 1"
  shows "scan_measure ch' < 2 * unat (current_active_cid ch - oldest_active_cid ch)"
proof -
  have "unat (current_active_cid ch - (oldest_active_cid ch + 1))
          < unat (current_active_cid ch - oldest_active_cid ch)"
    using assms(1) by (intro unat_diff_suc) simp
  then show ?thesis
    using assms(2,3) by (auto simp: scan_measure_def split: sum.splits)
qed

lemma scan_step_decreases:
  assumes "scan_step env handle sysnow v = Inr (v', True)"
      and "oldest_active_cid (lv_ch v) \<noteq> current_active_cid (lv_ch v)"
  shows "scan_measure (lv_ch v') < scan_measure (lv_ch v)"
proof -
  let ?ch = "lv_ch v"
  obtain ati where ati: "ati_of (oldest_active_cid ?ch) (active_table_size (ch_attributes ?ch)) = Inr ati"
    and inb: "in_table (active_table ?ch) ati"
    using assms(1) by (auto simp: scan_step_def Let_def split: sum.splits if_splits)
  show ?thesis
  proof (cases "sid (active_table ?ch ! nat ati) = BP_SID_VACANT")
    case True
    then have "lv_ch v' = bump_oldest ?ch"
      using assms(1) ati inb by (auto simp: scan_step_def Let_def)
    then show ?thesis
      using scan_measure_bump [OF assms(2), of "lv_ch v'"]
      by (simp add: bump_oldest_def scan_measure_def)
  next
    case False
    then have m: "scan_measure ?ch = 2 * unat (current_active_cid ?ch - oldest_active_cid ?ch) + 1"
      using ati inb by (simp add: scan_measure_def)
    have "(current_active_cid (lv_ch v') = current_active_cid ?ch
            \<and> oldest_active_cid (lv_ch v') = oldest_active_cid ?ch + 1)
          \<or> lv_ch v' = count_lost (clear_entry ati ?ch)"
      using assms(1) ati inb False
      by (auto simp: scan_step_def Let_def bump_oldest_def clear_entry_def count_expired_def
            count_retransmitted_def
          split: sum.splits if_splits prod.splits option.splits)
    then show ?thesis
    proof
      assume "current_active_cid (lv_ch v') = current_active_cid ?ch
            \<and> oldest_active_cid (lv_ch v') = oldest_active_cid ?ch + 1"
      then show ?thesis using scan_measure_bump [OF assms(2), of "lv_ch v'"] m by simp
    next
      assume c: "lv_ch v' = count_lost (clear_entry ati ?ch)"
      have "nat ati < length (active_table ?ch)"
        using inb by (simp add: in_table_def nat_less_iff)
      then have "scan_measure (count_lost (clear_entry ati ?ch))
              = 2 * unat (current_active_cid ?ch - oldest_active_cid ?ch)"
        using ati inb
        by (simp add: scan_measure_def count_lost_def clear_entry_def set_sid_def in_table_def)
      then show ?thesis using m c by simp
    qed
  qed
qed

termination scan_loop
proof (relation "measure (\<lambda>(env, handle, sysnow, v). scan_measure (lv_ch v))")
  show "wf (measure (\<lambda>(env :: 'a bp_env, handle :: int, sysnow :: bp_val_t, v :: 'a load_vars).
              scan_measure (lv_ch v)))" by simp
next
  fix env :: "'a bp_env" and handle :: int and sysnow :: bp_val_t
    and v :: "'a load_vars" and x2 and v' :: "'a load_vars" and again :: bool
  assume "lv_data v = None \<and> oldest_active_cid (lv_ch v) \<noteq> current_active_cid (lv_ch v)"
     and "scan_step env handle sysnow v = Inr x2" and "(v', again) = x2" and again
  then show "((env, handle, sysnow, v'), (env, handle, sysnow, v))
      \<in> measure (\<lambda>(env, handle, sysnow, v). scan_measure (lv_ch v))"
    using scan_step_decreases [of env handle sysnow v v'] by auto
qed

declare scan_loop.simps [simp del]

text \<open>One pass of the loop ``Try to Send Stored Bundle''; the boolean is as in
  \<open>scan_step\<close>.\<close>

definition deq_step ::
  "'st bp_env \<Rightarrow> int \<Rightarrow> int \<Rightarrow> bp_val_t \<Rightarrow> 'st load_vars \<Rightarrow> fault + ('st load_vars \<times> bool)" where
  "deq_step env handle tmo sysnow v =
     (let ((deq_status, out), st1) = dequeue (env_store env) handle tmo (lv_st v);
          v1 = v\<lparr>lv_data := map_option fst out,
                 lv_sid := (case out of None \<Rightarrow> lv_sid v | Some (d, n, s) \<Rightarrow> s),
                 lv_st := st1\<rparr>
      in
      if deq_status = BP_SUCCESS then
        (case lv_data v1 of
           None \<Rightarrow> Inl NullDeref
         | Some d \<Rightarrow>
             if exprtime d \<noteq> 0 \<and> sysnow \<ge> exprtime d then
               Inr (v1\<lparr>lv_data := None, lv_sid := BP_SID_VACANT,
                       lv_ch := count_expired (lv_ch v1),
                       lv_st := snd (relinquish (env_store env) handle (lv_sid v1) st1)\<rparr>, True)
             else Inr (v1, True))
      else if deq_status = BP_TIMEOUT then Inr (v1\<lparr>lv_status := BP_TIMEOUT\<rparr>, False)
      else Inr (v1\<lparr>lv_status := BP_FAILEDSTORE,
                   lv_flags := insert BP_FLAG_STOREFAILURE (lv_flags v1)\<rparr>, False))"

text \<open>The loop itself runs for as long as the storage service keeps handing out expired
  bundles; \<open>None\<close> is the run that never leaves it.\<close>

partial_function (option) deq_loop ::
  "'st bp_env \<Rightarrow> int \<Rightarrow> int \<Rightarrow> bp_val_t \<Rightarrow> 'st load_vars \<Rightarrow> (fault + 'st load_vars) option" where
  "deq_loop env handle tmo sysnow v =
     (if lv_data v = None then
        (case deq_step env handle tmo sysnow v of
           Inl e \<Rightarrow> Some (Inl e)
         | Inr (v', again) \<Rightarrow> if again then deq_loop env handle tmo sysnow v' else Some (Inr v'))
      else Some (Inr v))"

declare deq_loop.simps [code]

text \<open>``Send Bundle if Ready to Send''. The result is the local state and the buffer that
  \<open>*bundle\<close> points to afterwards.\<close>

definition emit ::
  "'st bp_env \<Rightarrow> bool \<Rightarrow> int \<Rightarrow> bp_val_t \<Rightarrow> 8 word list option \<Rightarrow> int \<Rightarrow> 'st load_vars
     \<Rightarrow> fault + ('st load_vars \<times> 8 word list option)" where
  "emit env malloc_ok handle sysnow buf sz v =
     (case lv_data v of
        None \<Rightarrow> Inr (v, buf)
      | Some d \<Rightarrow>
          if buf = None \<or> sz \<ge> bundlesize d then
            (let buf1 = (if buf = None
                         then (if malloc_ok then Some (replicate (nat (bundlesize d)) 0) else None)
                         else buf)
             in case buf1 of
                  Some dst \<Rightarrow>
                    (let ch = lv_ch v;
                         custody_step =
                           (if cteboffset d \<noteq> 0 then
                              (let r1 =
                                     (if lv_newcid v then
                                        (case ati_of (current_active_cid ch)
                                                (active_table_size (ch_attributes ch)) of
                                           Inl e \<Rightarrow> Inl e
                                         | Inr ati \<Rightarrow>
                                             if \<not> in_table (active_table ch) ati then Inl OutOfBounds
                                             else
                                               let (d1, fl1) = env_bundle_update env d
                                                                 (current_active_cid ch) (lv_flags v)
                                               in Inr (v\<lparr>lv_ati := ati, lv_data := Some d1,
                                                         lv_flags := fl1,
                                                         lv_st := env_poke env handle (lv_sid v) d1 (lv_st v),
                                                         lv_ch := ch\<lparr>active_table :=
                                                                      set_sid (active_table ch) ati (lv_sid v),
                                                                    current_active_cid :=
                                                                      current_active_cid ch + 1\<rparr>\<rparr>, d1))
                                      else Inr (v, d))
                               in case r1 of
                                    Inl e \<Rightarrow> Inl e
                                  | Inr (va, d1) \<Rightarrow>
                                      if \<not> in_table (active_table (lv_ch va)) (lv_ati va)
                                      then Inl OutOfBounds
                                      else Inr (va\<lparr>lv_ch := (lv_ch va)\<lparr>active_table :=
                                                     set_retx (active_table (lv_ch va)) (lv_ati va) sysnow\<rparr>,
                                                   lv_os := lv_os va @ [OS_LOCK (active_table_signal ch),
                                                                        OS_UNLOCK (active_table_signal ch)]\<rparr>,
                                                d1))
                            else Inr (v, d))
                     in case custody_step of
                          Inl e \<Rightarrow> Inl e
                        | Inr (vb, d1) \<Rightarrow>
                            (case memcpy dst (header d1) (bundlesize d1) of
                               Inl e \<Rightarrow> Inl e
                             | Inr dst' \<Rightarrow>
                                 let vc = vb\<lparr>lv_status := bundlesize d1,
                                            lv_ch := count_transmitted (lv_ch vb)\<rparr>
                                 in if cteboffset d1 = 0
                                    then Inr (vc\<lparr>lv_st := snd (relinquish (env_store env) handle
                                                                   (lv_sid vc) (lv_st vc))\<rparr>, Some dst')
                                    else Inr (vc, Some dst')))
                | None \<Rightarrow>
                    Inr (v\<lparr>lv_status := bplog BP_FAILEDMEM,
                           lv_st := snd (relinquish (env_store env) handle (lv_sid v) (lv_st v)),
                           lv_ch := count_lost (lv_ch v)\<rparr>, None))
          else
            Inr (v\<lparr>lv_status := bplog BP_BUNDLETOOLARGE,
                   lv_st := snd (relinquish (env_store env) handle (lv_sid v) (lv_st v)),
                   lv_ch := count_lost (lv_ch v)\<rparr>, buf))"

text \<open>
  \<open>bplib_load\<close>. \<open>time_err\<close> and \<open>sysnow\<close> are what \<open>bplib_os_systime\<close> answers; \<open>bundle\<close>
  is the \<open>void**\<close> argument, as \<open>payload\<close> in \<open>bplib_accept\<close>. The result is the status, the
  channel, the buffer, the flags, the storage and the operating-system calls; the outer
  \<open>None\<close> is a call that does not return.
\<close>

definition bplib_load ::
  "'st bp_env \<Rightarrow> bool \<Rightarrow> bool \<Rightarrow> bp_val_t \<Rightarrow> bp_channel_t option \<Rightarrow> 8 word list option option
     \<Rightarrow> int \<Rightarrow> int \<Rightarrow> bp_flag set option \<Rightarrow> 'st \<Rightarrow> os_event list
     \<Rightarrow> (fault + (int \<times> bp_channel_t option \<times> 8 word list option option \<times> bp_flag set option
                   \<times> 'st \<times> os_event list)) option" where
  "bplib_load env malloc_ok time_err sysnow channel bundlep sz tmo flags st os =
     (case channel of
        None \<Rightarrow> Some (Inr (BP_PARMERR, channel, bundlep, flags, st, os))
      | Some ch \<Rightarrow>
     (case bundlep of
        None \<Rightarrow> Some (Inr (BP_PARMERR, channel, bundlep, flags, st, os))
      | Some buf \<Rightarrow>
     (case flags of
        None \<Rightarrow> Some (Inr (BP_PARMERR, channel, bundlep, flags, st, os))
      | Some fl \<Rightarrow>
          let fl0 = (if time_err then insert BP_FLAG_UNRELIABLETIME fl else fl);
              (cust1, fl1, st1) = env_custody_send env (custody ch) (dacs_rate (ch_attributes ch))
                                    sysnow BP_CHECK fl0 st;
              ch1 = ch\<lparr>custody := cust1\<rparr>;
              dacs_handle = bundle_handle (custody_bundle cust1);
              ((dstat, out), st2) = dequeue (env_store env) dacs_handle BP_CHECK st1;
              v0 = \<lparr>lv_status = BP_SUCCESS, lv_data = map_option fst out,
                    lv_sid = (case out of None \<Rightarrow> BP_SID_VACANT | Some (d, n, s) \<Rightarrow> s),
                    lv_ati = -1, lv_newcid = True,
                    lv_flags = (if dstat = BP_SUCCESS then insert BP_FLAG_ROUTENEEDED fl1 else fl1),
                    lv_ch = ch1, lv_st = st2, lv_os = os\<rparr>;
              handle = (if lv_data v0 = None then bundle_handle (ch_bundle ch1) else dacs_handle);
              scanned =
                (if lv_data v0 = None then
                   (case scan_loop env handle sysnow
                           (v0\<lparr>lv_os := os @ [OS_LOCK (active_table_signal ch)]\<rparr>) of
                      Inl e \<Rightarrow> Inl e
                    | Inr v \<Rightarrow> Inr (v\<lparr>lv_os := lv_os v @ [OS_UNLOCK (active_table_signal ch)]\<rparr>))
                 else Inr v0)
          in case scanned of
               Inl e \<Rightarrow> Some (Inl e)
             | Inr v1 \<Rightarrow>
                 (case deq_loop env handle tmo sysnow v1 of
                    None \<Rightarrow> None
                  | Some (Inl e) \<Rightarrow> Some (Inl e)
                  | Some (Inr v2) \<Rightarrow>
                      (case emit env malloc_ok handle sysnow buf sz v2 of
                         Inl e \<Rightarrow> Some (Inl e)
                       | Inr (v3, buf') \<Rightarrow>
                           Some (Inr (lv_status v3, Some (lv_ch v3), Some buf', Some (lv_flags v3),
                                      lv_st v3, lv_os v3)))))))"

text \<open>
  The setting of the examples: the storage in memory, no custody signal pending
  (\<open>custody_send\<close> has nothing to store) and a \<open>bundle_update\<close> that leaves the bytes as
  they are. \<open>custodial bytes\<close> is a stored bundle that asks for custody and never expires.
\<close>

definition ram_env :: "(int \<Rightarrow> bp_bundle_data_t ram_store) bp_env" where
  "ram_env =
     \<lparr>env_store = ram_service bundlesize,
      env_custody_send = (\<lambda>c rate now tmo fl st. (c, fl, st)),
      env_bundle_update = (\<lambda>d cid fl. (d, fl)),
      env_poke = (\<lambda>h s d st. st)\<rparr>"

definition custodial :: "8 word list \<Rightarrow> bp_bundle_data_t" where
  "custodial bytes =
     \<lparr>exprtime = 0, cteboffset = 10, bundlesize = int (length bytes), header = bytes\<rparr>"

text \<open>The result of a \<open>bplib_load\<close> with the storage shown for one handle.\<close>

definition view_load ::
  "int \<Rightarrow> (fault + (int \<times> bp_channel_t option \<times> 8 word list option option \<times> bp_flag set option
                    \<times> (int \<Rightarrow> 'd ram_store) \<times> os_event list)) option
     \<Rightarrow> (fault + (int \<times> bp_channel_t option \<times> 8 word list option option \<times> bp_flag set option
                    \<times> 'd ram_store \<times> os_event list)) option" where
  "view_load h r =
     (case r of
        None \<Rightarrow> None
      | Some (Inl e) \<Rightarrow> Some (Inl e)
      | Some (Inr (status, ch, buf, fl, st, os)) \<Rightarrow> Some (Inr (status, ch, buf, fl, st h, os)))"

text \<open>Scenario ``Wrap = BLOCK'' of the specification: a table of two slots, both taken by
  custodial bundles sent at time 100 (storage ids 5 and 6, custody ids 1 and 2), nothing
  left to dequeue.\<close>

definition block_attributes :: bp_attr_t where
  "block_attributes = default_attributes\<lparr>active_table_size := 2, wrap_response := BP_WRAP_BLOCK\<rparr>"

definition full_channel :: bp_channel_t where
  "full_channel =
     (open_channel block_attributes 0 1 2)
       \<lparr>current_active_cid := 3,
        active_table := [\<lparr>sid = 6, retx = 100\<rparr>, \<lparr>sid = 5, retx = 100\<rparr>],
        stats := zero_stats\<lparr>transmitted := 2\<rparr>\<rparr>"

definition full_storage :: "int \<Rightarrow> bp_bundle_data_t ram_store" where
  "full_storage =
     empty_ram(0 := \<lparr>pending = [],
                     retained = [(5, custodial [1, 2, 3]), (6, custodial [4, 5])]\<rparr>)"

subsection \<open>\<open>bplib_eid2ipn\<close>\<close>

text \<open>
  The argument \<open>eid\<close> is a C string: \<open>Some s\<close> stands for memory holding the bytes \<open>s\<close>
  followed by a terminating NUL, \<open>None\<close> for the null pointer. Reading past the terminator
  is a fault.
\<close>

definition NUL :: char where
  "NUL = CHR 0x00"

definition c_mem :: "string \<Rightarrow> string" where
  "c_mem s = s @ [NUL]"

text \<open>The text of a C string held in a buffer: the bytes before the first NUL.\<close>

definition c_text :: "string \<Rightarrow> string" where
  "c_text m = takeWhile (\<lambda>c. c \<noteq> NUL) m"

text \<open>
  \<open>strtoul(nptr, &endptr, 10)\<close> of the C library, on the text at \<open>nptr\<close>: white space is
  skipped, one sign is accepted, then decimal digits are read. The result is the value, the
  number of characters consumed (\<open>endptr - nptr\<close>, zero when there is no digit) and whether
  \<open>errno\<close> is set to \<open>ERANGE\<close>. \<open>unsigned long\<close> has 64 bits.
\<close>

definition is_space :: "char \<Rightarrow> bool" where
  "is_space c = (c \<in> set [CHR '' '', CHR 0x09, CHR 0x0A, CHR 0x0B, CHR 0x0C, CHR 0x0D])"

definition is_digit :: "char \<Rightarrow> bool" where
  "is_digit c = ((48 :: nat) \<le> of_char c \<and> of_char c \<le> (57 :: nat))"

definition digit_val :: "char \<Rightarrow> int" where
  "digit_val c = of_char c - 48"

definition ULONG_MAX :: "64 word" where
  "ULONG_MAX = - 1"

definition strtoul :: "string \<Rightarrow> 64 word \<times> nat \<times> bool" where
  "strtoul txt =
     (let ws = takeWhile is_space txt;
          r1 = dropWhile is_space txt;
          sign = (case r1 of c # _ \<Rightarrow> (if c = CHR ''-'' \<or> c = CHR ''+'' then [c] else []) | [] \<Rightarrow> []);
          r2 = drop (length sign) r1;
          ds = takeWhile is_digit r2;
          n = foldl (\<lambda>a c. 10 * a + digit_val c) 0 ds
      in if ds = [] then (0, 0, False)
         else if n > 18446744073709551615 then (ULONG_MAX, length ws + length sign + length ds, True)
         else ((if sign = [CHR ''-''] then - word_of_int n else word_of_int n),
               length ws + length sign + length ds, False))"

text \<open>The scheme check \<open>eid[0] != 'i' || eid[1] != 'p' || eid[2] != 'n' || eid[3] != ':'\<close>,
  reading the memory from left to right and stopping at the first difference.\<close>

fun scheme_differs :: "string \<Rightarrow> string \<Rightarrow> fault + bool" where
  "scheme_differs [] m = Inr False"
| "scheme_differs (c # cs) [] = Inl OutOfBounds"
| "scheme_differs (c # cs) (x # m) = (if x \<noteq> c then Inr True else scheme_differs cs m)"

text \<open>
  \<open>bplib_eid2ipn\<close>. \<open>BP_MAX_EID_STRING\<close> comes from a header that is not part of the
  sources and is the parameter \<open>max_eid\<close>; so is the width of \<open>bp_ipn_t\<close>, the type of
  the two results. The result is the status and, on success, the node and service numbers
  stored through \<open>node\<close> and \<open>store\<close>.
\<close>

definition bplib_eid2ipn ::
  "int \<Rightarrow> string option \<Rightarrow> int \<Rightarrow> fault + (int \<times> ('a::len word \<times> 'a word) option)" where
  "bplib_eid2ipn max_eid eid len =
     (case eid of
        None \<Rightarrow> Inr (bplog BP_INVALIDEID, None)
      | Some s \<Rightarrow>
          if len < 7 then Inr (bplog BP_INVALIDEID, None)
          else if len > max_eid then Inr (bplog BP_INVALIDEID, None)
          else
            (case scheme_differs ''ipn:'' (c_mem s) of
               Inl e \<Rightarrow> Inl e
             | Inr True \<Rightarrow> Inr (bplog BP_INVALIDEID, None)
             | Inr False \<Rightarrow>
                 if len > int (length (c_mem s)) then Inl OutOfBounds
                 else
                   let tmplen = len - 4;
                       eidtmp = take (nat tmplen) (drop 4 (c_mem s)) @ [NUL];
                       node_ptr = c_text eidtmp
                   in if CHR ''.'' \<notin> set node_ptr then Inr (bplog BP_INVALIDEID, None)
                      else
                        let node_txt = takeWhile (\<lambda>c. c \<noteq> CHR ''.'') node_ptr;
                            service_txt = drop (length node_txt + 1) node_ptr;
                            (node_result, node_used, node_erange) = strtoul node_txt;
                            (service_result, service_used, service_erange) = strtoul service_txt
                        in if node_used = 0
                              \<or> ((node_result = ULONG_MAX \<or> node_result = 0) \<and> node_erange)
                           then Inr (bplog BP_INVALIDEID, None)
                           else if service_used = 0
                              \<or> ((service_result = ULONG_MAX \<or> service_result = 0) \<and> service_erange)
                           then Inr (bplog BP_INVALIDEID, None)
                           else Inr (BP_SUCCESS, Some (ucast node_result, ucast service_result))))"

subsection \<open>The red-black tree of custody-id ranges (\<open>src/src/bplib_rb_tree.c\<close>)\<close>

text \<open>
  The nodes live in one block allocated when the tree is created; a node pointer is the
  index of a node in the block, or \<open>None\<close> for \<open>NULL\<close>. The block is a store from indices
  to nodes, and every function takes the tree and returns the tree it leaves. A node covers
  the values \<open>value, ..., value + offset - 1\<close>. \<open>color\<close> is true for red.

  The loops of this file follow child and parent pointers, and end only on a well-formed
  tree. Each loop is a recursive function with a bound on the number of passes, which
  answers \<open>OutOfFuel\<close> when the bound is reached; every function that contains a loop
  takes the bound as its first argument.
\<close>

type_synonym node_ptr = "nat option"

record rb_node =
  node_value :: "32 word"
  node_offset :: "32 word"
  color :: bool
  left :: node_ptr
  right :: node_ptr
  parent :: node_ptr

record rb_tree =
  tree_size :: "32 word"
  max_size :: "32 word"
  root :: node_ptr
  free_node_head :: node_ptr
  free_node_tail :: node_ptr
  node_block :: "nat \<Rightarrow> rb_node"

text \<open>Reading and writing the fields of the node at an index.\<close>

definition nd :: "rb_tree \<Rightarrow> nat \<Rightarrow> rb_node" where
  "nd t a = node_block t a"

definition set_left :: "nat \<Rightarrow> node_ptr \<Rightarrow> rb_tree \<Rightarrow> rb_tree" where
  "set_left a p t = t\<lparr>node_block := (node_block t)(a := (node_block t a)\<lparr>left := p\<rparr>)\<rparr>"

definition set_right :: "nat \<Rightarrow> node_ptr \<Rightarrow> rb_tree \<Rightarrow> rb_tree" where
  "set_right a p t = t\<lparr>node_block := (node_block t)(a := (node_block t a)\<lparr>right := p\<rparr>)\<rparr>"

definition set_parent :: "nat \<Rightarrow> node_ptr \<Rightarrow> rb_tree \<Rightarrow> rb_tree" where
  "set_parent a p t = t\<lparr>node_block := (node_block t)(a := (node_block t a)\<lparr>parent := p\<rparr>)\<rparr>"

definition set_color :: "nat \<Rightarrow> bool \<Rightarrow> rb_tree \<Rightarrow> rb_tree" where
  "set_color a c t = t\<lparr>node_block := (node_block t)(a := (node_block t a)\<lparr>color := c\<rparr>)\<rparr>"

definition set_value :: "nat \<Rightarrow> 32 word \<Rightarrow> rb_tree \<Rightarrow> rb_tree" where
  "set_value a v t = t\<lparr>node_block := (node_block t)(a := (node_block t a)\<lparr>node_value := v\<rparr>)\<rparr>"

definition set_offset :: "nat \<Rightarrow> 32 word \<Rightarrow> rb_tree \<Rightarrow> rb_tree" where
  "set_offset a v t = t\<lparr>node_block := (node_block t)(a := (node_block t a)\<lparr>node_offset := v\<rparr>)\<rparr>"

text \<open>Sequencing of steps that may fault, and the dereference of a pointer.\<close>

definition fbind :: "fault + 'a \<Rightarrow> ('a \<Rightarrow> fault + 'b) \<Rightarrow> fault + 'b" where
  "fbind m f = (case m of Inl e \<Rightarrow> Inl e | Inr x \<Rightarrow> f x)"

definition deref :: "node_ptr \<Rightarrow> (nat \<Rightarrow> fault + 'b) \<Rightarrow> fault + 'b" where
  "deref p f = (case p of None \<Rightarrow> Inl NullDeref | Some a \<Rightarrow> f a)"

definition pop_free_node :: "rb_tree \<Rightarrow> node_ptr \<times> rb_tree" where
  "pop_free_node t =
     (case free_node_tail t of
        None \<Rightarrow> (None, t)
      | Some a \<Rightarrow>
          let t1 = t\<lparr>free_node_tail := left (nd t a)\<rparr>;
              t2 = (if free_node_tail t1 = None then t1\<lparr>free_node_head := None\<rparr> else t1)
          in (Some a, t2\<lparr>tree_size := tree_size t2 + 1\<rparr>))"

definition push_free_node :: "rb_tree \<Rightarrow> node_ptr \<Rightarrow> fault + rb_tree" where
  "push_free_node t node =
     deref node (\<lambda>a.
       let t1 = set_right a (free_node_head t) t;
           t2 = set_left a None t1;
           t3 = t2\<lparr>tree_size := tree_size t2 - 1\<rparr>
       in case free_node_head t3 of
            None \<Rightarrow> Inr (t3\<lparr>free_node_head := Some a, free_node_tail := Some a\<rparr>)
          | Some hd_a \<Rightarrow> Inr ((set_left hd_a (Some a) t3)\<lparr>free_node_head := Some a\<rparr>))"

definition set_black :: "rb_tree \<Rightarrow> node_ptr \<Rightarrow> fault + rb_tree" where
  "set_black t node = deref node (\<lambda>a. Inr (set_color a False t))"

definition set_red :: "rb_tree \<Rightarrow> node_ptr \<Rightarrow> fault + rb_tree" where
  "set_red t node = deref node (\<lambda>a. Inr (set_color a True t))"

definition is_black :: "rb_tree \<Rightarrow> node_ptr \<Rightarrow> bool" where
  "is_black t node = (case node of None \<Rightarrow> True | Some a \<Rightarrow> \<not> color (nd t a))"

definition is_red :: "rb_tree \<Rightarrow> node_ptr \<Rightarrow> bool" where
  "is_red t node = (case node of None \<Rightarrow> False | Some a \<Rightarrow> color (nd t a))"

definition get_grandparent :: "rb_tree \<Rightarrow> node_ptr \<Rightarrow> fault + node_ptr" where
  "get_grandparent t node =
     deref node (\<lambda>a.
       case parent (nd t a) of
         None \<Rightarrow> Inr None
       | Some pa \<Rightarrow> Inr (parent (nd t pa)))"

definition is_root :: "rb_tree \<Rightarrow> node_ptr \<Rightarrow> fault + bool" where
  "is_root t node = deref node (\<lambda>a. Inr (parent (nd t a) = None))"

definition is_left_child :: "rb_tree \<Rightarrow> node_ptr \<Rightarrow> fault + bool" where
  "is_left_child t node =
     deref node (\<lambda>a.
       case parent (nd t a) of
         None \<Rightarrow> Inr False
       | Some pa \<Rightarrow> Inr (Some a = left (nd t pa)))"

definition get_sibling :: "rb_tree \<Rightarrow> node_ptr \<Rightarrow> fault + node_ptr" where
  "get_sibling t node =
     deref node (\<lambda>a.
       case parent (nd t a) of
         None \<Rightarrow> Inr None
       | Some pa \<Rightarrow>
           fbind (is_left_child t node) (\<lambda>lc.
             if lc then Inr (right (nd t pa)) else Inr (left (nd t pa))))"

definition get_uncle :: "rb_tree \<Rightarrow> node_ptr \<Rightarrow> fault + node_ptr" where
  "get_uncle t node =
     deref node (\<lambda>a.
       case parent (nd t a) of
         None \<Rightarrow> Inr None
       | Some pa \<Rightarrow>
           fbind (get_grandparent t node) (\<lambda>g.
             if g = None then Inr None else get_sibling t (Some pa)))"

definition has_left_child :: "rb_tree \<Rightarrow> node_ptr \<Rightarrow> fault + bool" where
  "has_left_child t node = deref node (\<lambda>a. Inr (left (nd t a) \<noteq> None))"

definition has_right_child :: "rb_tree \<Rightarrow> node_ptr \<Rightarrow> fault + bool" where
  "has_right_child t node = deref node (\<lambda>a. Inr (right (nd t a) \<noteq> None))"

definition swap_parents :: "node_ptr \<Rightarrow> node_ptr \<Rightarrow> rb_tree \<Rightarrow> fault + rb_tree" where
  "swap_parents node_1 node_2 t =
     deref node_2 (\<lambda>a2. deref node_1 (\<lambda>a1.
       let t1 = set_parent a2 (parent (nd t a1)) t in
       fbind (is_root t1 node_1) (\<lambda>rt.
         fbind (if rt then Inr (t1\<lparr>root := node_2\<rparr>)
                else fbind (is_left_child t1 node_1) (\<lambda>lc.
                       deref (parent (nd t1 a1)) (\<lambda>pa.
                         if lc then Inr (set_left pa node_2 t1) else Inr (set_right pa node_2 t1))))
           (\<lambda>t2. Inr (set_parent a1 node_2 t2)))))"

definition rotate_left :: "rb_tree \<Rightarrow> node_ptr \<Rightarrow> fault + rb_tree" where
  "rotate_left t node =
     deref node (\<lambda>a.
       let new_parent = right (nd t a) in
       deref new_parent (\<lambda>b.
         let t1 = set_right a (left (nd t b)) t;
             t2 = set_left b node t1
         in fbind (has_right_child t2 node) (\<lambda>rc.
              fbind (if rc then deref (right (nd t2 a)) (\<lambda>c. Inr (set_parent c node t2)) else Inr t2)
                (\<lambda>t3. swap_parents node new_parent t3))))"

definition rotate_right :: "rb_tree \<Rightarrow> node_ptr \<Rightarrow> fault + rb_tree" where
  "rotate_right t node =
     deref node (\<lambda>a.
       let new_parent = left (nd t a) in
       deref new_parent (\<lambda>b.
         let t1 = set_left a (right (nd t b)) t;
             t2 = set_right b node t1
         in fbind (has_left_child t2 node) (\<lambda>lc.
              fbind (if lc then deref (left (nd t2 a)) (\<lambda>c. Inr (set_parent c node t2)) else Inr t2)
                (\<lambda>t3. swap_parents node new_parent t3))))"

definition populate_rb_node :: "32 word \<Rightarrow> nat \<Rightarrow> rb_tree \<Rightarrow> rb_tree" where
  "populate_rb_node v a t =
     set_right a None (set_left a None (set_parent a None (set_offset a 1 (set_value a v t))))"

definition create_black_node :: "32 word \<Rightarrow> rb_tree \<Rightarrow> node_ptr \<times> rb_tree" where
  "create_black_node v t =
     (case pop_free_node t of
        (None, t1) \<Rightarrow> (None, t1)
      | (Some a, t1) \<Rightarrow> (Some a, set_color a False (populate_rb_node v a t1)))"

definition create_red_node :: "32 word \<Rightarrow> rb_tree \<Rightarrow> node_ptr \<times> rb_tree" where
  "create_red_node v t =
     (case pop_free_node t of
        (None, t1) \<Rightarrow> (None, t1)
      | (Some a, t1) \<Rightarrow> (Some a, set_color a True (populate_rb_node v a t1)))"

text \<open>\<open>insert_child(node, parent, &parent->left)\<close> and \<open>insert_child(node, parent,
  &parent->right)\<close>.\<close>

definition insert_child_left :: "nat \<Rightarrow> nat \<Rightarrow> rb_tree \<Rightarrow> rb_tree" where
  "insert_child_left a pa t = set_left pa (Some a) (set_parent a (Some pa) t)"

definition insert_child_right :: "nat \<Rightarrow> nat \<Rightarrow> rb_tree \<Rightarrow> rb_tree" where
  "insert_child_right a pa t = set_right pa (Some a) (set_parent a (Some pa) t)"

text \<open>The loops \<open>while (has_right_child(sucessor)) sucessor = sucessor->right\<close> and its
  mirror image.\<close>

fun rightmost :: "nat \<Rightarrow> rb_tree \<Rightarrow> nat \<Rightarrow> fault + nat" where
  "rightmost 0 t a = Inl OutOfFuel"
| "rightmost (Suc n) t a = (case right (nd t a) of None \<Rightarrow> Inr a | Some b \<Rightarrow> rightmost n t b)"

fun leftmost :: "nat \<Rightarrow> rb_tree \<Rightarrow> nat \<Rightarrow> fault + nat" where
  "leftmost 0 t a = Inl OutOfFuel"
| "leftmost (Suc n) t a = (case left (nd t a) of None \<Rightarrow> Inr a | Some b \<Rightarrow> leftmost n t b)"

definition get_left_sucessor :: "nat \<Rightarrow> rb_tree \<Rightarrow> node_ptr \<Rightarrow> fault + node_ptr" where
  "get_left_sucessor fuel t node =
     deref node (\<lambda>a.
       case left (nd t a) of
         None \<Rightarrow> Inr None
       | Some l \<Rightarrow> fbind (rightmost fuel t l) (\<lambda>s. Inr (Some s)))"

definition get_right_sucessor :: "nat \<Rightarrow> rb_tree \<Rightarrow> node_ptr \<Rightarrow> fault + node_ptr" where
  "get_right_sucessor fuel t node =
     deref node (\<lambda>a.
       case right (nd t a) of
         None \<Rightarrow> Inr None
       | Some r \<Rightarrow> fbind (leftmost fuel t r) (\<lambda>s. Inr (Some s)))"

definition get_sucessor :: "nat \<Rightarrow> rb_tree \<Rightarrow> node_ptr \<Rightarrow> fault + node_ptr" where
  "get_sucessor fuel t node =
     fbind (get_left_sucessor fuel t node) (\<lambda>s.
       if s = None then get_right_sucessor fuel t node else Inr s)"

definition swap_values :: "nat \<Rightarrow> nat \<Rightarrow> rb_tree \<Rightarrow> rb_tree" where
  "swap_values n1 n2 t =
     (let temp = node_value (nd t n1);
          t1 = set_value n1 (node_value (nd t n2)) t
      in set_value n2 temp t1)"

definition swap_offsets :: "nat \<Rightarrow> nat \<Rightarrow> rb_tree \<Rightarrow> rb_tree" where
  "swap_offsets n1 n2 t =
     (let temp = node_offset (nd t n1);
          t1 = set_offset n1 (node_offset (nd t n2)) t
      in set_offset n2 temp t1)"

definition replace_node :: "rb_tree \<Rightarrow> node_ptr \<Rightarrow> node_ptr \<Rightarrow> fault + rb_tree" where
  "replace_node t node child =
     deref node (\<lambda>a.
       let p = parent (nd t a) in
       fbind (is_left_child t node) (\<lambda>lc.
         deref p (\<lambda>pa.
           let t1 = (if lc then set_left pa child t else set_right pa child t)
           in case child of
                None \<Rightarrow> Inr t1
              | Some c \<Rightarrow> Inr (set_parent c p t1))))"

definition delete_case_6 :: "rb_tree \<Rightarrow> node_ptr \<Rightarrow> fault + rb_tree" where
  "delete_case_6 t node =
     fbind (get_sibling t node) (\<lambda>sibling.
       deref node (\<lambda>a.
         let p = parent (nd t a) in
         deref sibling (\<lambda>s. deref p (\<lambda>pa.
           let t1 = set_color s (color (nd t pa)) t in
           fbind (set_black t1 p) (\<lambda>t2.
             fbind (is_left_child t2 node) (\<lambda>lc.
               if lc then fbind (set_black t2 (right (nd t2 s))) (\<lambda>t3. rotate_left t3 p)
               else fbind (set_black t2 (left (nd t2 s))) (\<lambda>t3. rotate_right t3 p)))))))"

definition delete_case_5 :: "rb_tree \<Rightarrow> node_ptr \<Rightarrow> fault + rb_tree" where
  "delete_case_5 t node =
     fbind (get_sibling t node) (\<lambda>sibling.
       fbind
         (if is_black t sibling then
            fbind (is_left_child t node) (\<lambda>is_left.
              deref sibling (\<lambda>s.
                if is_left \<and> is_black t (right (nd t s)) \<and> is_red t (left (nd t s)) then
                  fbind (set_red t sibling) (\<lambda>t1.
                    fbind (set_black t1 (left (nd t1 s))) (\<lambda>t2. rotate_right t2 sibling))
                else if \<not> is_left \<and> is_black t (left (nd t s)) \<and> is_red t (right (nd t s)) then
                  rotate_left t sibling
                else Inr t))
          else Inr t)
         (\<lambda>t'. delete_case_6 t' node))"

definition delete_case_4 :: "rb_tree \<Rightarrow> node_ptr \<Rightarrow> fault + rb_tree" where
  "delete_case_4 t node =
     fbind (get_sibling t node) (\<lambda>sibling.
       deref node (\<lambda>a.
         let p = parent (nd t a) in
         if \<not> is_red t p then delete_case_5 t node
         else if \<not> is_black t sibling then delete_case_5 t node
         else deref sibling (\<lambda>s.
           if is_black t (left (nd t s)) \<and> is_black t (right (nd t s)) then
             fbind (set_red t sibling) (\<lambda>t1. set_black t1 p)
           else delete_case_5 t node)))"

text \<open>
  \<open>delete_case_3\<close> either finishes, or recolors the sibling and calls \<open>delete_case_1\<close> on
  the parent: \<open>Inl\<close> carries the tree and the node of that call, \<open>Inr\<close> the finished tree.
\<close>

definition delete_case_3 :: "rb_tree \<Rightarrow> node_ptr \<Rightarrow> fault + (rb_tree \<times> node_ptr) + rb_tree" where
  "delete_case_3 t node =
     fbind (get_sibling t node) (\<lambda>sibling.
       deref node (\<lambda>a.
         let p = parent (nd t a) in
         if \<not> is_black t p then fbind (delete_case_4 t node) (\<lambda>t'. Inr (Inr t'))
         else if \<not> is_black t sibling then fbind (delete_case_4 t node) (\<lambda>t'. Inr (Inr t'))
         else deref sibling (\<lambda>s.
           if is_black t (left (nd t s)) \<and> is_black t (right (nd t s)) then
             fbind (set_red t sibling) (\<lambda>t1. Inr (Inl (t1, p)))
           else fbind (delete_case_4 t node) (\<lambda>t'. Inr (Inr t')))))"

definition delete_case_2 :: "rb_tree \<Rightarrow> node_ptr \<Rightarrow> fault + (rb_tree \<times> node_ptr) + rb_tree" where
  "delete_case_2 t node =
     fbind (get_sibling t node) (\<lambda>sibling.
       deref node (\<lambda>a.
         let p = parent (nd t a) in
         fbind
           (if is_red t sibling then
              fbind (set_red t p) (\<lambda>t1.
                fbind (set_black t1 sibling) (\<lambda>t2.
                  fbind (is_left_child t2 node) (\<lambda>lc.
                    if lc then rotate_left t2 p else rotate_right t2 p)))
            else Inr t)
           (\<lambda>t'. delete_case_3 t' node)))"

fun delete_case_1 :: "nat \<Rightarrow> rb_tree \<Rightarrow> node_ptr \<Rightarrow> fault + rb_tree" where
  "delete_case_1 0 t node = Inl OutOfFuel"
| "delete_case_1 (Suc n) t node =
     fbind (is_root t node) (\<lambda>rt.
       if rt then Inr t
       else
         (case delete_case_2 t node of
            Inl e \<Rightarrow> Inl e
          | Inr (Inl (t', p)) \<Rightarrow> delete_case_1 n t' p
          | Inr (Inr t') \<Rightarrow> Inr t'))"

definition delete_one_child :: "nat \<Rightarrow> rb_tree \<Rightarrow> node_ptr \<Rightarrow> fault + rb_tree" where
  "delete_one_child fuel t node =
     fbind (has_left_child t node) (\<lambda>hl.
       deref node (\<lambda>a.
         let child = (if hl then left (nd t a) else right (nd t a)) in
         fbind
           (if child = None then
              fbind (if is_black t node then delete_case_1 fuel t node else Inr t)
                (\<lambda>t1. replace_node t1 node child)
            else
              fbind (replace_node t node child) (\<lambda>t1.
                if is_black t1 node then
                  (if is_red t1 child then set_black t1 child
                   else delete_case_1 fuel t1 child)
                else Inr t1))
           (\<lambda>t2. push_free_node t2 node)))"

definition delete_node :: "nat \<Rightarrow> rb_tree \<Rightarrow> node_ptr \<Rightarrow> fault + rb_tree" where
  "delete_node fuel t node =
     fbind (get_sucessor fuel t node) (\<lambda>replace_node.
       fbind (if replace_node = None then is_root t node else Inr False) (\<lambda>trivial.
         if trivial then
           fbind (push_free_node t node) (\<lambda>t1. Inr (t1\<lparr>root := None\<rparr>))
         else
           (case replace_node of
              Some r \<Rightarrow>
                deref node (\<lambda>a.
                  delete_one_child fuel (swap_offsets a r (swap_values a r t)) replace_node)
            | None \<Rightarrow> delete_one_child fuel t node)))"

definition are_consecutive :: "32 word \<Rightarrow> 32 word \<Rightarrow> bool" where
  "are_consecutive value_1 value_2 = (value_1 + 1 = value_2)"

definition is_empty :: "rb_tree \<Rightarrow> bool" where
  "is_empty t = (tree_size t = 0)"

definition is_full :: "rb_tree \<Rightarrow> bool" where
  "is_full t = (tree_size t = max_size t)"

text \<open>The \<open>while (true)\<close> loop of \<open>try_binary_insert_or_merge\<close>, at the node \<open>a\<close>. The result
  is the pointer the function returns and the tree.\<close>

fun insert_or_merge_loop ::
  "nat \<Rightarrow> nat \<Rightarrow> 32 word \<Rightarrow> rb_tree \<Rightarrow> nat \<Rightarrow> fault + (node_ptr \<times> rb_tree)" where
  "insert_or_merge_loop 0 fuel v t a = Inl OutOfFuel"
| "insert_or_merge_loop (Suc n) fuel v t a =
     (if are_consecutive v (node_value (nd t a)) then
        fbind (get_left_sucessor fuel t (Some a)) (\<lambda>sucessor.
          case sucessor of
            None \<Rightarrow>
              Inr (None, set_offset a (node_offset (nd t a) + 1) (set_value a v t))
          | Some s \<Rightarrow>
              if are_consecutive (node_value (nd t s) + node_offset (nd t s) - 1) v then
                (let t1 = set_value a (node_value (nd t s)) t;
                     t2 = set_offset a (node_offset (nd t1 a) + (node_offset (nd t1 s) + 1)) t1
                 in fbind (delete_node fuel t2 sucessor) (\<lambda>t3. Inr (None, t3)))
              else Inr (None, set_offset a (node_offset (nd t a) + 1) (set_value a v t)))
      else if v < node_value (nd t a) then
        (case left (nd t a) of
           Some l \<Rightarrow> insert_or_merge_loop n fuel v t l
         | None \<Rightarrow>
             (case create_red_node v t of
                (None, t1) \<Rightarrow> Inr (None, t1)
              | (Some new_node, t1) \<Rightarrow> Inr (Some new_node, insert_child_left new_node a t1)))
      else if are_consecutive (node_value (nd t a) + node_offset (nd t a) - 1) v then
        fbind (get_right_sucessor fuel t (Some a)) (\<lambda>sucessor.
          case sucessor of
            None \<Rightarrow> Inr (None, set_offset a (node_offset (nd t a) + 1) t)
          | Some s \<Rightarrow>
              if are_consecutive v (node_value (nd t s)) then
                (let t1 = set_offset a (node_offset (nd t a) + (node_offset (nd t s) + 1)) t
                 in fbind (delete_node fuel t1 sucessor) (\<lambda>t2. Inr (None, t2)))
              else Inr (None, set_offset a (node_offset (nd t a) + 1) t))
      else if v > node_value (nd t a) then
        (case right (nd t a) of
           Some r \<Rightarrow> insert_or_merge_loop n fuel v t r
         | None \<Rightarrow>
             (case create_red_node v t of
                (None, t1) \<Rightarrow> Inr (None, t1)
              | (Some new_node, t1) \<Rightarrow> Inr (Some new_node, insert_child_right new_node a t1)))
      else Inr (None, t))"

definition try_binary_insert_or_merge ::
  "nat \<Rightarrow> 32 word \<Rightarrow> rb_tree \<Rightarrow> fault + (node_ptr \<times> rb_tree)" where
  "try_binary_insert_or_merge fuel v t =
     (case root t of
        None \<Rightarrow>
          if is_full t then Inr (None, t)
          else (let (p, t1) = create_black_node v t;
                    t2 = t1\<lparr>root := p\<rparr>
                in Inr (root t2, t2))
      | Some a \<Rightarrow> insert_or_merge_loop fuel fuel v t a)"

text \<open>The last branch of \<open>try_insert_rebalance\<close>, ``Red Parent and Black Uncle''.\<close>

definition rebalance_black_uncle :: "rb_tree \<Rightarrow> node_ptr \<Rightarrow> fault + rb_tree" where
  "rebalance_black_uncle t node =
     deref node (\<lambda>a.
       let p = parent (nd t a) in
       fbind (get_grandparent t node) (\<lambda>grandparent.
         deref grandparent (\<lambda>g.
           deref p (\<lambda>pa.
             fbind
               (if p = left (nd t g) \<and> node = right (nd t pa) then
                  fbind (rotate_left t p) (\<lambda>t1. Inr (t1, left (nd t1 a)))
                else if p = right (nd t g) \<and> node = left (nd t pa) then
                  fbind (rotate_right t p) (\<lambda>t1. Inr (t1, right (nd t1 a)))
                else Inr (t, node))
               (\<lambda>(t1, node1).
                  fbind (get_grandparent t1 node1) (\<lambda>grandparent1.
                    deref node1 (\<lambda>a1.
                      let p1 = parent (nd t1 a1) in
                      fbind (is_left_child t1 node1) (\<lambda>lc.
                        fbind (if lc then rotate_right t1 grandparent1
                               else rotate_left t1 grandparent1)
                          (\<lambda>t2. fbind (set_black t2 p1) (\<lambda>t3. set_red t3 grandparent1))))))))))"

text \<open>The loop of \<open>try_insert_rebalance\<close>.\<close>

fun try_insert_rebalance :: "nat \<Rightarrow> rb_tree \<Rightarrow> node_ptr \<Rightarrow> fault + rb_tree" where
  "try_insert_rebalance 0 t node = Inl OutOfFuel"
| "try_insert_rebalance (Suc n) t node =
     deref node (\<lambda>a.
       let p = parent (nd t a) in
       fbind (get_uncle t node) (\<lambda>uncle.
         if p = None then set_black t node
         else if is_black t p then Inr t
         else if uncle \<noteq> None \<and> is_red t uncle then
           fbind (set_black t p) (\<lambda>t1.
             fbind (set_black t1 uncle) (\<lambda>t2.
               fbind (get_grandparent t2 node) (\<lambda>grandparent.
                 fbind (set_red t2 grandparent) (\<lambda>t3.
                   try_insert_rebalance n t3 grandparent))))
         else rebalance_black_uncle t node))"

text \<open>\<open>create_rb_tree\<close>: the block is zeroed (\<open>calloc\<close>) and its nodes are pushed on the
  free list in address order.\<close>

definition zero_node :: rb_node where
  "zero_node = \<lparr>node_value = 0, node_offset = 0, color = False, left = None, right = None,
                parent = None\<rparr>"

fun push_block :: "nat \<Rightarrow> nat \<Rightarrow> rb_tree \<Rightarrow> fault + rb_tree" where
  "push_block 0 start t = Inr t"
| "push_block (Suc k) start t =
     fbind (push_free_node t (Some start)) (push_block k (Suc start))"

definition create_rb_tree :: "32 word \<Rightarrow> fault + rb_tree" where
  "create_rb_tree n =
     push_block (unat n) 0
       \<lparr>tree_size = n, max_size = n, root = None, free_node_head = None, free_node_tail = None,
        node_block = (\<lambda>a. zero_node)\<rparr>"

text \<open>\<open>insert\<close>: whether a node was added, and the tree.\<close>

definition insert_value :: "nat \<Rightarrow> 32 word \<Rightarrow> rb_tree \<Rightarrow> fault + (bool \<times> rb_tree)" where
  "insert_value fuel v t =
     fbind (try_binary_insert_or_merge fuel v t) (\<lambda>(inserted_node, t1).
       if inserted_node = None then Inr (False, t1)
       else fbind (try_insert_rebalance fuel t1 inserted_node) (\<lambda>t2. Inr (True, t2)))"

text \<open>A sequence of \<open>insert\<close> calls, with the answers in order.\<close>

fun insert_all :: "nat \<Rightarrow> 32 word list \<Rightarrow> rb_tree \<Rightarrow> fault + (bool list \<times> rb_tree)" where
  "insert_all fuel [] t = Inr ([], t)"
| "insert_all fuel (v # vs) t =
     fbind (insert_value fuel v t) (\<lambda>(b, t1).
       fbind (insert_all fuel vs t1) (\<lambda>(bs, t2). Inr (b # bs, t2)))"

text \<open>
  The nodes of the tree in order, as \<open>apply_inorder\<close> visits them, each with its value,
  offset and color; and the checks of \<open>assert_rb_tree_is_valid\<close> together with the
  condition on ranges that the specification adds to them.
\<close>

fun inorder_nodes :: "nat \<Rightarrow> rb_tree \<Rightarrow> node_ptr \<Rightarrow> fault + (32 word \<times> 32 word \<times> bool) list" where
  "inorder_nodes fuel t None = Inr []"
| "inorder_nodes 0 t (Some a) = Inl OutOfFuel"
| "inorder_nodes (Suc n) t (Some a) =
     fbind (inorder_nodes n t (left (nd t a))) (\<lambda>ls.
       fbind (inorder_nodes n t (right (nd t a))) (\<lambda>rs.
         Inr (ls @ [(node_value (nd t a), node_offset (nd t a), color (nd t a))] @ rs)))"

fun no_adjacent_red :: "nat \<Rightarrow> rb_tree \<Rightarrow> node_ptr \<Rightarrow> bool" where
  "no_adjacent_red fuel t None = True"
| "no_adjacent_red 0 t (Some a) = False"
| "no_adjacent_red (Suc n) t (Some a) =
     ((if color (nd t a) then is_black t (left (nd t a)) \<and> is_black t (right (nd t a)) else True)
      \<and> no_adjacent_red n t (left (nd t a)) \<and> no_adjacent_red n t (right (nd t a)))"

fun black_depth :: "nat \<Rightarrow> rb_tree \<Rightarrow> node_ptr \<Rightarrow> nat option" where
  "black_depth fuel t None = Some 1"
| "black_depth 0 t (Some a) = None"
| "black_depth (Suc n) t (Some a) =
     (case (black_depth n t (left (nd t a)), black_depth n t (right (nd t a))) of
        (Some l, Some r) \<Rightarrow> if l = r then Some ((if color (nd t a) then 0 else 1) + l) else None
      | _ \<Rightarrow> None)"

fun ranges_apart :: "(32 word \<times> 32 word \<times> bool) list \<Rightarrow> bool" where
  "ranges_apart [] = True"
| "ranges_apart [x] = True"
| "ranges_apart ((v1, o1, c1) # (v2, o2, c2) # xs) =
     (unat v1 + unat o1 < unat v2 \<and> ranges_apart ((v2, o2, c2) # xs))"

definition rb_tree_is_valid :: "nat \<Rightarrow> rb_tree \<Rightarrow> bool" where
  "rb_tree_is_valid fuel t =
     (is_black t (root t)
      \<and> no_adjacent_red fuel t (root t)
      \<and> black_depth fuel t (root t) \<noteq> None
      \<and> (case inorder_nodes fuel t (root t) of Inl e \<Rightarrow> False | Inr xs \<Rightarrow> ranges_apart xs))"

text \<open>The run of a test: a tree of the given capacity, the values inserted in order; the
  answers of the \<open>insert\<close> calls and the nodes of the final tree in order.\<close>

definition insert_run ::
  "nat \<Rightarrow> 32 word \<Rightarrow> 32 word list \<Rightarrow> fault + (bool list \<times> (32 word \<times> 32 word \<times> bool) list)" where
  "insert_run fuel capacity vs =
     fbind (create_rb_tree capacity) (\<lambda>t0.
       fbind (insert_all fuel vs t0) (\<lambda>(bs, t).
         fbind (inorder_nodes fuel t (root t)) (\<lambda>xs. Inr (bs, xs))))"

definition insert_run_valid :: "nat \<Rightarrow> 32 word \<Rightarrow> 32 word list \<Rightarrow> fault + bool" where
  "insert_run_valid fuel capacity vs =
     fbind (create_rb_tree capacity) (\<lambda>t0.
       fbind (insert_all fuel vs t0) (\<lambda>(bs, t). Inr (rb_tree_is_valid fuel t)))"

subsection \<open>The ACS reader (\<open>src/v6/dacs.c\<close>)\<close>

text \<open>
  Modelled from the spec: the layout constants of the ACS record. \<open>dacs.h\<close> and \<open>v6.h\<close> are
  not part of the sources; section 4.5 of the specification puts the record type in byte 0
  and the status in byte 1, whose bit 0 is the acknowledgment flag.
\<close>

definition BP_ACS_REC_TYPE_INDEX :: int where "BP_ACS_REC_TYPE_INDEX = 0"
definition BP_ACS_REC_STATUS_INDEX :: int where "BP_ACS_REC_STATUS_INDEX = 1"
definition BP_ACS_ACK_MASK :: "8 word" where "BP_ACS_ACK_MASK = 0x01"

text \<open>
  \<open>sdnv_read\<close>, which \<open>dacs_read\<close> calls, is declared in \<open>sdnv.h\<close> and is not part of the
  sources (\<open>bplib_sdnv_read\<close> above has another signature and another result). It is a
  parameter of the reader: a function of the block, its size, the SDNV record and the
  16-bit flag word, giving the returned number, the record and the flags.
\<close>

type_synonym sdnv_reader =
  "8 word list \<Rightarrow> int \<Rightarrow> (64 word) bp_sdnv_t \<Rightarrow> 16 word
     \<Rightarrow> fault + (int \<times> (64 word) bp_sdnv_t \<times> 16 word)"

text \<open>The acknowledgment callback (\<open>bp_acknowledge_t\<close>) acts on the state behind its
  \<open>void*\<close> argument and answers a status.\<close>

type_synonym 's ack_callback = "'s \<Rightarrow> bp_val_t \<Rightarrow> fault + (int \<times> 's)"

text \<open>The loop \<open>for(i = 0; i < fill.value; i++)\<close>: \<open>c\<close> is \<open>cid.value + i\<close>, \<open>k\<close> the number
  of passes left.\<close>

fun ack_loop :: "'s ack_callback \<Rightarrow> bp_val_t \<Rightarrow> nat \<Rightarrow> 's \<Rightarrow> int \<Rightarrow> fault + ('s \<times> int)" where
  "ack_loop ack c 0 s ack_count = Inr (s, ack_count)"
| "ack_loop ack c (Suc k) s ack_count =
     (case ack s c of
        Inl e \<Rightarrow> Inl e
      | Inr (status, s') \<Rightarrow>
          ack_loop ack (c + 1) k s' (if status = BP_SUCCESS then ack_count + 1 else ack_count))"

text \<open>The loop ``Process Fills''. Its result is the value \<open>dacs_read\<close> returns, the state of
  the callback and the flag word of the caller.\<close>

fun dacs_fill_loop ::
  "nat \<Rightarrow> sdnv_reader \<Rightarrow> 's ack_callback \<Rightarrow> 8 word list \<Rightarrow> int \<Rightarrow> bool
     \<Rightarrow> (64 word) bp_sdnv_t \<Rightarrow> (64 word) bp_sdnv_t \<Rightarrow> bool \<Rightarrow> 16 word \<Rightarrow> 's \<Rightarrow> int \<Rightarrow> 16 word
     \<Rightarrow> fault + (int \<times> 's \<times> 16 word)" where
  "dacs_fill_loop 0 rd ack rec rec_size ack_success cid fill cidin flags s ack_count sdnvflags =
     Inl OutOfFuel"
| "dacs_fill_loop (Suc n) rd ack rec rec_size ack_success cid fill cidin flags s ack_count sdnvflags =
     (if index fill < rec_size then
        (case rd rec rec_size fill flags of
           Inl e \<Rightarrow> Inl e
         | Inr (ret, fill1, flags1) \<Rightarrow>
             let fill2 = fill1\<lparr>index := ret\<rparr> in
             if flags1 \<noteq> 0 then Inr (bplog BP_BUNDLEPARSEERR, s, sdnvflags)
             else if cidin = True \<and> ack_success then
               (case ack_loop ack (val cid) (unat (val fill2)) s ack_count of
                  Inl e \<Rightarrow> Inl e
                | Inr (s', ack_count') \<Rightarrow>
                    dacs_fill_loop n rd ack rec rec_size ack_success
                      (cid\<lparr>val := val cid + val fill2\<rparr>) fill2 False flags1 s' ack_count' sdnvflags)
             else
               dacs_fill_loop n rd ack rec rec_size ack_success
                 (cid\<lparr>val := val cid + val fill2\<rparr>) fill2 True flags1 s ack_count sdnvflags)
      else if flags \<noteq> 0 then Inr (bplog BP_BUNDLEPARSEERR, s, sdnvflags OR flags)
      else Inr (ack_count, s, sdnvflags))"

definition dacs_read ::
  "nat \<Rightarrow> sdnv_reader \<Rightarrow> 's ack_callback \<Rightarrow> 8 word list \<Rightarrow> int \<Rightarrow> 's \<Rightarrow> 16 word
     \<Rightarrow> fault + (int \<times> 's \<times> 16 word)" where
  "dacs_read fuel rd ack rec rec_size s sdnvflags =
     (if \<not> in_block rec BP_ACS_REC_STATUS_INDEX then Inl OutOfBounds
      else
        let acs_status = rec ! nat BP_ACS_REC_STATUS_INDEX;
            ack_success = (acs_status AND BP_ACS_ACK_MASK = BP_ACS_ACK_MASK)
        in case rd rec rec_size \<lparr>val = 0, index = 2, width = 0\<rparr> 0 of
             Inl e \<Rightarrow> Inl e
           | Inr (ret, cid, flags) \<Rightarrow>
               if flags \<noteq> 0 then Inr (bplog BP_BUNDLEPARSEERR, s, sdnvflags)
               else dacs_fill_loop fuel rd ack rec rec_size ack_success cid
                      \<lparr>val = 0, index = ret, width = 0\<rparr> True flags s 0 sdnvflags)"

text \<open>
  The reading of an ACS record in the words of the specification: the fills that follow
  the first custody id, in order, as long as the record is not exhausted (\<open>None\<close> when a
  read faults or raises a flag, or when the bound on the number of fills is reached);
  the custody ids of the runs, the fills being alternately a run and a gap; and the
  callback applied to a list of custody ids from left to right, with its answers.
\<close>

fun read_fills :: "nat \<Rightarrow> sdnv_reader \<Rightarrow> 8 word list \<Rightarrow> int \<Rightarrow> (64 word) bp_sdnv_t \<Rightarrow> bp_val_t list option" where
  "read_fills 0 rd rec rec_size fill = None"
| "read_fills (Suc n) rd rec rec_size fill =
     (if index fill < rec_size then
        (case rd rec rec_size fill 0 of
           Inl e \<Rightarrow> None
         | Inr (ret, fill1, flags1) \<Rightarrow>
             if flags1 \<noteq> 0 then None
             else map_option (Cons (val fill1)) (read_fills n rd rec rec_size (fill1\<lparr>index := ret\<rparr>)))
      else Some [])"

definition cid_run :: "bp_val_t \<Rightarrow> bp_val_t \<Rightarrow> bp_val_t list" where
  "cid_run c len = map (\<lambda>i. c + of_nat i) [0 ..< unat len]"

text \<open>\<open>acked_cids in_run c fills\<close>: the custody ids that the fills acknowledge, from the
  custody id \<open>c\<close> on; \<open>in_run\<close> says whether the next fill is a run or a gap.\<close>

fun acked_cids :: "bool \<Rightarrow> bp_val_t \<Rightarrow> bp_val_t list \<Rightarrow> bp_val_t list" where
  "acked_cids in_run c [] = []"
| "acked_cids True c (run # fills) = cid_run c run @ acked_cids False (c + run) fills"
| "acked_cids False c (gap # fills) = acked_cids True (c + gap) fills"

fun ack_each :: "'s ack_callback \<Rightarrow> bp_val_t list \<Rightarrow> 's \<Rightarrow> fault + (int list \<times> 's)" where
  "ack_each ack [] s = Inr ([], s)"
| "ack_each ack (c # cs) s =
     (case ack s c of
        Inl e \<Rightarrow> Inl e
      | Inr (status, s') \<Rightarrow>
          (case ack_each ack cs s' of
             Inl e \<Rightarrow> Inl e
           | Inr (statuses, s'') \<Rightarrow> Inr (status # statuses, s'')))"

definition count_success :: "int list \<Rightarrow> int" where
  "count_success statuses = int (length (filter (\<lambda>x. x = BP_SUCCESS) statuses))"

text \<open>
  Modelled from the spec: \<open>sdnv_read\<close> of \<open>sdnv.c\<close>, which is not part of the sources. The
  decoding is that of section 4.1: bytes are consumed while the high bit is set and the low
  seven bits accumulate, most significant first; the overflow flag is raised when no byte
  without the high bit is found in the allotted span, the incomplete flag when the buffer
  ends inside the value. As \<open>dacs_read\<close> uses it, the function returns the index of the
  byte that follows the value (\<open>dacs_read\<close> stores the result in \<open>fill.index\<close> and reads on
  from there), and a width of zero, which \<open>dacs_read\<close> passes, sets no bound other than the
  size of the buffer. The values of the two flag bits are not in the sources either.
\<close>

definition BP_FLAG_SDNVOVERFLOW :: "16 word" where "BP_FLAG_SDNVOVERFLOW = 0x0200"
definition BP_FLAG_SDNVINCOMPLETE :: "16 word" where "BP_FLAG_SDNVINCOMPLETE = 0x0400"

function sdnv_read_from ::
  "8 word list \<Rightarrow> int \<Rightarrow> int \<Rightarrow> int \<Rightarrow> 64 word \<Rightarrow> 16 word \<Rightarrow> fault + (int \<times> 64 word \<times> 16 word)" where
  "sdnv_read_from block sz bound i v flags =
     (if i < bound \<and> i < sz then
        (if \<not> in_block block i then Inl OutOfBounds
         else
           let b = block ! nat i;
               v' = push_bit 7 v OR ucast (b AND 0x7F)
           in if b AND 0x80 = 0x00 then Inr (i + 1, v', flags)
              else sdnv_read_from block sz bound (i + 1) v'
                     (if sz < i + 2 then flags OR BP_FLAG_SDNVINCOMPLETE else flags))
      else Inr (i, v, flags OR BP_FLAG_SDNVOVERFLOW))"
  by pat_completeness auto
termination
  by (relation "measure (\<lambda>(block, sz, bound, i, v, flags). nat (sz - i))") auto

declare sdnv_read_from.simps [simp del]

definition sdnv_read :: sdnv_reader where
  "sdnv_read block sz sdnv flags =
     (let w = (if width sdnv \<le> 0 then sz else width sdnv)
      in case sdnv_read_from block sz (index sdnv + w) (index sdnv) 0 flags of
           Inl e \<Rightarrow> Inl e
         | Inr (ret, v, flags') \<Rightarrow> Inr (ret, sdnv\<lparr>val := v\<rparr>, flags'))"

text \<open>A callback that records the custody ids it is given and reports success, and one
  that reports success for even custody ids only.\<close>

definition log_ack :: "(bp_val_t list) ack_callback" where
  "log_ack s c = Inr (BP_SUCCESS, s @ [c])"

definition log_ack_even :: "(bp_val_t list) ack_callback" where
  "log_ack_even s c = Inr (if even (unat c) then BP_SUCCESS else BP_FAILEDRESPONSE, s @ [c])"

subsection \<open>Sequences of channel operations\<close>

text \<open>The number of slots of the active table that hold a bundle.\<close>

definition active_count :: "bp_channel_t \<Rightarrow> nat" where
  "active_count ch = length (filter (\<lambda>e. sid e \<noteq> BP_SID_VACANT) (active_table ch))"

text \<open>\<open>bplib_store\<close>, over \<open>bundle_send\<close> with the build and write functions acting on the
  storage.\<close>

definition bplib_store ::
  "(bp_bundle_t \<Rightarrow> 'st \<Rightarrow> bp_bundle_t \<times> 'st) \<Rightarrow> (bp_bundle_t \<Rightarrow> 'p \<Rightarrow> 'st \<Rightarrow> int \<times> bp_bundle_t \<times> 'st)
     \<Rightarrow> bp_channel_t option \<Rightarrow> 'p option \<Rightarrow> bp_flag set option \<Rightarrow> 'st
     \<Rightarrow> int \<times> bp_channel_t option \<times> 'st" where
  "bplib_store v6_build v6_write channel payload flags st =
     (case channel of
        None \<Rightarrow> (BP_PARMERR, channel, st)
      | Some ch \<Rightarrow>
     (case payload of
        None \<Rightarrow> (BP_PARMERR, channel, st)
      | Some pay \<Rightarrow>
     (case flags of
        None \<Rightarrow> (BP_PARMERR, channel, st)
      | Some fl \<Rightarrow>
          let (status, b, st1) = bundle_send v6_build v6_write (ch_bundle ch) pay st;
              ch1 = ch\<lparr>ch_bundle := b\<rparr>;
              ch2 = (if status = BP_SUCCESS
                     then ch1\<lparr>stats := (stats ch1)\<lparr>generated := generated (stats ch1) + 1\<rparr>\<rparr>
                     else ch1)
          in (status, Some ch2, st1))))"

text \<open>
  The acknowledgments of one aggregate custody signal, as \<open>bplib_process\<close> applies them:
  the callback \<open>acknowledge\<close> on each acknowledged custody id in turn (this is what
  \<open>dacs_read\<close> does with the callback), then the count of the successful ones added to
  \<open>stats.acknowledged\<close>.
\<close>

definition process_acks ::
  "('st, 'd) bp_store_t \<Rightarrow> bp_val_t list \<Rightarrow> bp_channel_t \<times> 'st \<Rightarrow> fault + (bp_channel_t \<times> 'st)" where
  "process_acks store cids cs =
     (case ack_each (\<lambda>s c. case acknowledge store c s of
                              Inl e \<Rightarrow> Inl e
                            | Inr (status, ch, st) \<Rightarrow> Inr (status, (ch, st))) cids
             (fst cs\<lparr>stats := (stats (fst cs))\<lparr>received := received (stats (fst cs)) + 1\<rparr>\<rparr>, snd cs) of
        Inl e \<Rightarrow> Inl e
      | Inr (statuses, (ch, st)) \<Rightarrow>
          Inr (if count_success statuses > 0
               then ch\<lparr>stats := (stats ch)\<lparr>acknowledged :=
                          acknowledged (stats ch) + word_of_int (count_success statuses)\<rparr>\<rparr>
               else ch, st))"

text \<open>The operations on an open channel, with their arguments, and their effect on the
  channel and the storage; \<open>None\<close> when the call faults or does not return.\<close>

datatype ('st, 'p) channel_op =
  Op_store "bp_bundle_t \<Rightarrow> 'st \<Rightarrow> bp_bundle_t \<times> 'st" "bp_bundle_t \<Rightarrow> 'p \<Rightarrow> 'st \<Rightarrow> int \<times> bp_bundle_t \<times> 'st" 'p
| Op_load bool bool bp_val_t "8 word list option" int int
| Op_acks "bp_val_t list"
| Op_flush

fun run_op ::
  "'st bp_env \<Rightarrow> ('st, 'p) channel_op \<Rightarrow> bp_channel_t \<times> 'st \<Rightarrow> (bp_channel_t \<times> 'st) option" where
  "run_op env (Op_store v6_build v6_write pay) (ch, st) =
     (case bplib_store v6_build v6_write (Some ch) (Some pay) (Some {}) st of
        (status, Some ch', st') \<Rightarrow> Some (ch', st')
      | (status, None, st') \<Rightarrow> None)"
| "run_op env (Op_load malloc_ok time_err sysnow buf sz tmo) (ch, st) =
     (case bplib_load env malloc_ok time_err sysnow (Some ch) (Some buf) sz tmo (Some {}) st [] of
        Some (Inr (status, Some ch', buf', fl, st', os)) \<Rightarrow> Some (ch', st')
      | _ \<Rightarrow> None)"
| "run_op env (Op_acks cids) (ch, st) =
     (case process_acks (env_store env) cids (ch, st) of
        Inl e \<Rightarrow> None
      | Inr cs \<Rightarrow> Some cs)"
| "run_op env Op_flush (ch, st) =
     (case bplib_flush (env_store env) (Some ch) st [] of
        Inr (status, Some ch', st', os) \<Rightarrow> Some (ch', st')
      | _ \<Rightarrow> None)"

fun run_ops ::
  "'st bp_env \<Rightarrow> ('st, 'p) channel_op list \<Rightarrow> bp_channel_t \<times> 'st \<Rightarrow> (bp_channel_t \<times> 'st) option" where
  "run_ops env [] cs = Some cs"
| "run_ops env (op # ops) cs =
     (case run_op env op cs of
        None \<Rightarrow> None
      | Some cs' \<Rightarrow> run_ops env ops cs')"

text \<open>What the claim on the active count compares: \<open>current_active_cid -
  oldest_active_cid\<close> and the number of occupied slots.\<close>

definition active_span :: "bp_channel_t \<times> 'st \<Rightarrow> nat \<times> nat" where
  "active_span cs =
     (unat (current_active_cid (fst cs) - oldest_active_cid (fst cs)), active_count (fst cs))"

text \<open>
  The invariant behind the bound on the active count. \<open>covered_at sids oldest current\<close>:
  every occupied slot of a table with the storage ids \<open>sids\<close> is the slot of a custody id
  from \<open>oldest\<close> up to, and not including, \<open>current\<close>. \<open>table_inv attr k\<close>: the channel has
  the attributes \<open>attr\<close>, its table has \<open>active_table_size\<close> slots, the oldest custody id is
  not beyond the current one, which is at most \<open>k + 1\<close>, and the occupied slots are covered.
\<close>

definition covered_at :: "bp_sid_t list \<Rightarrow> nat \<Rightarrow> nat \<Rightarrow> bool" where
  "covered_at sids oldest current =
     (\<forall>i < length sids.
        sids ! i \<noteq> BP_SID_VACANT \<longrightarrow>
        (\<exists>c. oldest \<le> c \<and> c < current \<and> c mod length sids = i))"

definition covered :: "bp_channel_t \<Rightarrow> bool" where
  "covered ch =
     covered_at (map sid (active_table ch))
       (unat (oldest_active_cid ch)) (unat (current_active_cid ch))"

definition table_inv :: "bp_attr_t \<Rightarrow> nat \<Rightarrow> bp_channel_t \<Rightarrow> bool" where
  "table_inv attr k ch =
     (ch_attributes ch = attr
      \<and> int (length (active_table ch)) = active_table_size attr
      \<and> unat (oldest_active_cid ch) \<le> unat (current_active_cid ch)
      \<and> unat (current_active_cid ch) \<le> k + 1
      \<and> covered ch)"

text \<open>The channels for which the bound holds: custody ids are not reused on retransmission, a
  full table blocks or drops, and the table size is a positive C \<open>int\<close>.\<close>

definition lazy_sweep_attr :: "bp_attr_t \<Rightarrow> bool" where
  "lazy_sweep_attr attr =
     (cid_reuse attr = 0 \<and> wrap_response attr \<noteq> BP_WRAP_RESEND
      \<and> 0 < active_table_size attr \<and> active_table_size attr < 2 ^ 31)"

text \<open>
  An example run on a table of two slots that blocks when full: two custodial bundles wait in
  the storage of the channel (handle 0); each of two \<open>bplib_load\<close> calls at time 100 sends one
  of them, with custody ids 1 and 2; then an aggregate custody signal acknowledges custody
  id 1.
\<close>

definition two_pending :: "int \<Rightarrow> bp_bundle_data_t ram_store" where
  "two_pending =
     empty_ram(0 := \<lparr>pending = [(5, custodial [1, 2, 3]), (6, custodial [4, 5])],
                     retained = []\<rparr>)"

definition load_load_ack :: "(int \<Rightarrow> bp_bundle_data_t ram_store, unit) channel_op list" where
  "load_load_ack = [Op_load True False 100 None 0 0, Op_load True False 100 None 0 0, Op_acks [1]]"

section \<open>Theorems\<close>

subsection \<open>SDNV codec\<close>

text \<open>
  Claim C2 (SDNV round trip): writing \<open>v\<close> at a sufficient width and reading the bytes back
  should return \<open>v\<close> with no flag. The code does not do this. For \<open>v = 1\<close>, at widths 1 and 8
  and index 0, \<open>bplib_sdnv_write\<close> stores \<open>width + 1\<close> bytes, clears the continuation bit
  in the byte at buffer index 0 (the most significant group) and sets it in the last byte;
  \<open>bplib_sdnv_read\<close> on the resulting bytes stops at the first byte and returns 0, with no
  flag raised.
\<close>

theorem sdnv_round_trip_fails_at_1:
  "bplib_sdnv_write [0, 0] 2 \<lparr>val = (1 :: 64 word), index = 0, width = 1\<rparr> no_flags
     = Inr (1, [0x00, 0x81], no_flags)
   \<and> bplib_sdnv_read [0x00, 0x81] 2 \<lparr>val = (0 :: 64 word), index = 0, width = 1\<rparr> no_flags
     = Inr (1, \<lparr>val = 0, index = 0, width = 1\<rparr>, no_flags)
   \<and> bplib_sdnv_write [0, 0, 0, 0, 0, 0, 0, 0, 0] 9
        \<lparr>val = (1 :: 64 word), index = 0, width = 8\<rparr> no_flags
     = Inr (8, [0x00, 0x80, 0x80, 0x80, 0x80, 0x80, 0x80, 0x80, 0x81], no_flags)
   \<and> bplib_sdnv_read [0x00, 0x80, 0x80, 0x80, 0x80, 0x80, 0x80, 0x80, 0x81] 9
        \<lparr>val = (0 :: 64 word), index = 0, width = 8\<rparr> no_flags
     = Inr (1, \<lparr>val = 0, index = 0, width = 8\<rparr>, no_flags)"
  by (simp add: bplib_sdnv_write_def bplib_sdnv_read_def sdnv_write_loop.simps
      sdnv_read_loop.simps in_block_def no_flags_def)

subsection \<open>Configuration and the bundle template\<close>

text \<open>
  Claim C1 (a successful write through \<open>bplib_config\<close> leaves \<open>prebuilt\<close> false, so that the
  next \<open>bundle_send\<close> rebuilds the template): the code stores \<open>true\<close>. Whatever the option and
  the value, a successful call in write mode returns a channel whose template is marked
  prebuilt; at the concrete input below (lifetime set to 5 on a freshly opened channel)
  the following \<open>bundle_send\<close> runs \<open>v6_write\<close> only.
\<close>

theorem config_write_marks_prebuilt:
  "(\<forall>ch opt v len.
      map_option (\<lambda>c. prebuilt (ch_bundle c))
        (fst (snd (bplib_config (Some ch) BP_OPT_MODE_WRITE opt (Some v) len)))
      = Some (if fst (bplib_config (Some ch) BP_OPT_MODE_WRITE opt (Some v) len) = BP_SUCCESS
              then True else prebuilt (ch_bundle ch)))
   \<and> (case bplib_config (Some (open_channel default_attributes 0 1 2)) BP_OPT_MODE_WRITE
             BP_OPT_LIFETIME (Some 5) 4 of
        (status, Some ch', v') \<Rightarrow>
          status = BP_SUCCESS \<and> lifetime (ch_attributes ch') = 5
          \<and> prebuilt (ch_bundle ch') = True
          \<and> bundle_send log_build log_write (ch_bundle ch') () []
              = (BP_SUCCESS, ch_bundle ch', [V6_WRITE])
      | (status, None, v') \<Rightarrow> False)"
proof (intro conjI allI)
  fix ch opt v len
  show "map_option (\<lambda>c. prebuilt (ch_bundle c))
        (fst (snd (bplib_config (Some ch) BP_OPT_MODE_WRITE opt (Some v) len)))
      = Some (if fst (bplib_config (Some ch) BP_OPT_MODE_WRITE opt (Some v) len) = BP_SUCCESS
              then True else prebuilt (ch_bundle ch))"
    by (cases opt)
       (auto simp: bplib_config_def config_int_def Let_def BP_SUCCESS_def BP_PARMERR_def
          bplog_def split: sum.splits prod.splits)
next
  show "case bplib_config (Some (open_channel default_attributes 0 1 2)) BP_OPT_MODE_WRITE
             BP_OPT_LIFETIME (Some 5) 4 of
        (status, Some ch', v') \<Rightarrow>
          status = BP_SUCCESS \<and> lifetime (ch_attributes ch') = 5
          \<and> prebuilt (ch_bundle ch') = True
          \<and> bundle_send log_build log_write (ch_bundle ch') () []
              = (BP_SUCCESS, ch_bundle ch', [V6_WRITE])
      | (status, None, v') \<Rightarrow> False"
    by (simp add: bplib_config_def config_int_def sizeof_int_def open_channel_def
        default_attributes_def bundle_send_def log_build_def log_write_def Let_def)
qed

subsection \<open>\<open>bplib_accept\<close>\<close>

text \<open>
  Claim C10: when \<open>bplib_accept\<close> has dequeued a payload (the storage service returned a
  positive status and the payload with its storage id) but cannot deliver it, because the
  caller's buffer is smaller than the payload or because the allocation for a null buffer
  fails, it returns the error code (\<open>BP_PAYLOADTOOLARGE\<close> or \<open>BP_FAILEDMEM\<close>), counts the
  payload in \<open>stats.lost\<close>, delivers nothing, and the storage it leaves is the one
  \<open>relinquish\<close> returns for that storage id on the payload handle. This holds for every
  storage service.
\<close>

theorem accept_undeliverable_relinquishes:
  assumes deq: "dequeue store (payload_handle (ch_bundle ch)) tmo st
                  = ((deqstat, Some (payptr, paylen, s)), st1)"
      and pos: "deqstat > 0"
      and undeliverable: "(\<exists>b. buf = Some b \<and> sz < paylen) \<or> (buf = None \<and> \<not> malloc_ok)"
  shows "bplib_accept store malloc_ok (Some ch) (Some buf) sz tmo (Some flags) st
           = Inr (if buf = None then BP_FAILEDMEM else BP_PAYLOADTOOLARGE,
                  Some (ch\<lparr>stats := (stats ch)\<lparr>lost := lost (stats ch) + 1\<rparr>\<rparr>),
                  Some buf,
                  snd (relinquish store (payload_handle (ch_bundle ch)) s st1))"
  using undeliverable
  by (auto simp: bplib_accept_def deq pos bplog_def Let_def split: prod.splits)

text \<open>The two cases on the storage in memory: a 5-byte payload under storage id 7, offered
  a 3-byte buffer, and offered no buffer when memory is exhausted. In both the payload is
  gone from the storage afterwards.\<close>

theorem accept_undeliverable_relinquishes_witness:
  "bplib_accept (ram_service (\<lambda>d. int (length d))) True
      (Some (open_channel default_attributes 0 1 2)) (Some (Some [0, 0, 0])) 3 0 (Some {})
      (empty_ram(1 := \<lparr>pending = [(7, [104, 101, 108, 108, 111])], retained = []\<rparr>))
    = Inr (BP_PAYLOADTOOLARGE,
           Some ((open_channel default_attributes 0 1 2)\<lparr>stats := zero_stats\<lparr>lost := 1\<rparr>\<rparr>),
           Some (Some [0, 0, 0]),
           empty_ram(1 := \<lparr>pending = [], retained = []\<rparr>))
   \<and> bplib_accept (ram_service (\<lambda>d. int (length d))) False
      (Some (open_channel default_attributes 0 1 2)) (Some None) 3 0 (Some {})
      (empty_ram(1 := \<lparr>pending = [(7, [104, 101, 108, 108, 111])], retained = []\<rparr>))
    = Inr (BP_FAILEDMEM,
           Some ((open_channel default_attributes 0 1 2)\<lparr>stats := zero_stats\<lparr>lost := 1\<rparr>\<rparr>),
           Some None,
           empty_ram(1 := \<lparr>pending = [], retained = []\<rparr>))"
proof -
  let ?store = "ram_service (\<lambda>d :: 8 word list. int (length d))"
  let ?ch = "open_channel default_attributes 0 1 2"
  let ?st = "empty_ram(1 := \<lparr>pending = [(7, [104, 101, 108, 108, 111 :: 8 word])], retained = []\<rparr>)"
  let ?st1 = "empty_ram(1 := \<lparr>pending = [], retained = [(7, [104, 101, 108, 108, 111 :: 8 word])]\<rparr>)"
  have deq: "dequeue ?store (payload_handle (ch_bundle ?ch)) 0 ?st
               = ((BP_SUCCESS, Some ([104, 101, 108, 108, 111], 5, 7)), ?st1)"
    by (simp add: ram_service_def ram_dequeue_def open_channel_def empty_ram_def)
  have pos: "BP_SUCCESS > 0" by (simp add: BP_SUCCESS_def)
  have rel: "snd (relinquish ?store (payload_handle (ch_bundle ?ch)) 7 ?st1)
               = empty_ram(1 := \<lparr>pending = [], retained = []\<rparr>)"
    by (simp add: ram_service_def ram_relinquish_def open_channel_def empty_ram_def)
  have st: "stats ?ch = zero_stats" "lost zero_stats = 0"
    by (simp_all add: open_channel_def zero_stats_def)
  have a: "(\<exists>b. Some [0, 0, 0 :: 8 word] = Some b \<and> (3 :: int) < 5)
             \<or> (Some [0, 0, 0 :: 8 word] = None \<and> \<not> True)" by simp
  have b: "(\<exists>b. (None :: 8 word list option) = Some b \<and> (3 :: int) < 5)
             \<or> ((None :: 8 word list option) = None \<and> \<not> False)" by simp
  show ?thesis
    using accept_undeliverable_relinquishes [OF deq pos a, of "{}"]
          accept_undeliverable_relinquishes [OF deq pos b, of "{}"]
    by (simp add: rel st)
qed

subsection \<open>\<open>bplib_load\<close> when the active table is full\<close>

text \<open>
  Claim C5 (with the wrap response \<open>BLOCK\<close>, a full table of live bundles and nothing in
  storage, \<open>bplib_load\<close> sets the wrap flag, waits \<open>BP_WRAP_TIMEOUT\<close> on the active-table
  signal and returns \<open>OVERFLOW\<close>): the flag is set and the wait is made, but the status
  that reaches the caller is \<open>BP_TIMEOUT\<close>. The scan stores \<open>BP_OVERFLOW\<close> in \<open>status\<close>
  and leaves the loop with \<open>data\<close> still null, so the loop ``Try to Send Stored Bundle''
  runs, finds the storage empty and overwrites \<open>status\<close>. Below, the call on the scenario
  of the specification, at time 100 with a retransmission timeout of 10 seconds.
\<close>

theorem load_block_returns_timeout:
  "view_load 0 (bplib_load ram_env True False 100 (Some full_channel) (Some None) 0 0 (Some {})
                  full_storage [])
     = Some (Inr (BP_TIMEOUT, Some full_channel, Some None, Some {BP_FLAG_ACTIVETABLEWRAP},
                  full_storage 0, [OS_LOCK 1, OS_WAITON 1 BP_WRAP_TIMEOUT, OS_UNLOCK 1]))"
  by code_simp

subsection \<open>\<open>bplib_eid2ipn\<close>\<close>

lemma scheme_differs_mem:
  "NUL \<notin> set p \<Longrightarrow> scheme_differs p (s @ [NUL]) = Inr (take (length p) s \<noteq> p)"
proof (induction p arbitrary: s)
  case Nil
  then show ?case by simp
next
  case (Cons c cs)
  show ?case
  proof (cases s)
    case Nil
    then show ?thesis using Cons.prems by auto
  next
    case (Cons x xs)
    then show ?thesis using Cons.IH [of xs] Cons.prems by auto
  qed
qed

lemma scheme_differs_ipn:
  "scheme_differs ''ipn:'' (c_mem s) = Inr (take 4 s \<noteq> ''ipn:'')"
  using scheme_differs_mem [of "''ipn:''" s] by (simp add: c_mem_def NUL_def eval_nat_numeral)

lemma eid_text_subset:
  "set (c_text (take n (drop k (c_mem s)) @ [NUL])) \<subseteq> set s"
proof
  fix c
  assume "c \<in> set (c_text (take n (drop k (c_mem s)) @ [NUL]))"
  then have "c \<in> set (take n (drop k (c_mem s)) @ [NUL])" and "c \<noteq> NUL"
    unfolding c_text_def by (auto dest: set_takeWhileD)
  then have "c \<in> set (c_mem s)"
    by (auto dest: in_set_takeD in_set_dropD)
  with \<open>c \<noteq> NUL\<close> show "c \<in> set s" by (simp add: c_mem_def)
qed

text \<open>
  Claim C4, the part that the code contradicts: an EID with a zero-valued node or service
  is not rejected. The two checks after \<open>strtoul\<close> reject a result of 0 or \<open>ULONG_MAX\<close>
  only together with \<open>errno == ERANGE\<close>, which a plain \<open>0\<close> does not set.
\<close>

theorem eid2ipn_zero_component_counterexample:
  "bplib_eid2ipn 128 (Some ''ipn:0.1'') 7 = Inr (BP_SUCCESS, Some (0 :: 32 word, 1))
   \<and> bplib_eid2ipn 128 (Some ''ipn:1.0'') 7 = Inr (BP_SUCCESS, Some (1 :: 32 word, 0))"
  by code_simp

text \<open>
  Claim C4 as the code has it: \<open>ipn:1.1\<close> parses to node 1 and service 1, and the
  invalid-EID status is returned for every length below 7, for every EID that does not
  begin with \<open>ipn:\<close>, and for every EID without a dot (whenever \<open>len\<close> stays within the
  string and its terminator, so that the copy reads no foreign memory).
\<close>

theorem eid2ipn_boundaries:
  fixes s :: string and len max_eid :: int
  shows "(7 \<le> max_eid \<longrightarrow>
            bplib_eid2ipn max_eid (Some ''ipn:1.1'') 7 = Inr (BP_SUCCESS, Some (1 :: 'a::len word, 1)))
         \<and> (len < 7 \<longrightarrow>
            bplib_eid2ipn max_eid eid len
              = (Inr (BP_INVALIDEID, None) :: fault + (int \<times> ('a word \<times> 'a word) option)))
         \<and> (take 4 s \<noteq> ''ipn:'' \<longrightarrow>
            bplib_eid2ipn max_eid (Some s) len
              = (Inr (BP_INVALIDEID, None) :: fault + (int \<times> ('a word \<times> 'a word) option)))
         \<and> (CHR ''.'' \<notin> set s \<and> len \<le> int (length s) + 1 \<longrightarrow>
            bplib_eid2ipn max_eid (Some s) len
              = (Inr (BP_INVALIDEID, None) :: fault + (int \<times> ('a word \<times> 'a word) option)))"
proof (intro conjI impI)
  have n: "strtoul ''1'' = (1, 1, False)" by code_simp
  have t: "c_text (take 3 (drop 4 (c_mem ''ipn:1.1'')) @ [NUL]) = ''1.1''"
    by (simp add: c_text_def c_mem_def NUL_def)
  show "7 \<le> max_eid \<Longrightarrow>
           bplib_eid2ipn max_eid (Some ''ipn:1.1'') 7 = Inr (BP_SUCCESS, Some (1 :: 'a word, 1))"
    by (simp add: bplib_eid2ipn_def scheme_differs_ipn t n Let_def ULONG_MAX_def)
       (simp add: c_mem_def)
  show "len < 7 \<Longrightarrow>
           bplib_eid2ipn max_eid eid len
             = (Inr (BP_INVALIDEID, None) :: fault + (int \<times> ('a word \<times> 'a word) option))"
    by (simp add: bplib_eid2ipn_def bplog_def split: option.splits)
  show "take 4 s \<noteq> ''ipn:'' \<Longrightarrow>
           bplib_eid2ipn max_eid (Some s) len
             = (Inr (BP_INVALIDEID, None) :: fault + (int \<times> ('a word \<times> 'a word) option))"
    by (simp add: bplib_eid2ipn_def bplog_def scheme_differs_ipn)
  show "bplib_eid2ipn max_eid (Some s) len
             = (Inr (BP_INVALIDEID, None) :: fault + (int \<times> ('a word \<times> 'a word) option))"
    if h: "CHR ''.'' \<notin> set s \<and> len \<le> int (length s) + 1"
  proof -
    have "CHR ''.'' \<notin> set (c_text (take (nat (len - 4)) (drop 4 (c_mem s)) @ [NUL]))"
      using eid_text_subset [of "nat (len - 4)" 4 s] h by blast
    moreover have "int (length (c_mem s)) = int (length s) + 1"
      by (simp add: c_mem_def)
    ultimately show ?thesis
      using h
      by (simp add: bplib_eid2ipn_def bplog_def scheme_differs_ipn Let_def split: bool.splits)
  qed
qed

theorem eid2ipn_boundaries_witness:
  "bplib_eid2ipn 128 (Some ''ipn:1.1'') 7 = Inr (BP_SUCCESS, Some (1 :: 32 word, 1))
   \<and> bplib_eid2ipn 128 (Some ''ipn:1'') 5
       = (Inr (BP_INVALIDEID, None) :: fault + (int \<times> (32 word \<times> 32 word) option))
   \<and> bplib_eid2ipn 128 (Some ''foo:1.1'') 7
       = (Inr (BP_INVALIDEID, None) :: fault + (int \<times> (32 word \<times> 32 word) option))
   \<and> bplib_eid2ipn 128 (Some ''ipn:1234'') 8
       = (Inr (BP_INVALIDEID, None) :: fault + (int \<times> (32 word \<times> 32 word) option))"
  using eid2ipn_boundaries [where 'a = 32, of 128 5 "Some ''ipn:1''" "''foo:1.1''"]
        eid2ipn_boundaries [where 'a = 32, of 128 7 "Some ''foo:1.1''" "''foo:1.1''"]
        eid2ipn_boundaries [where 'a = 32, of 128 8 "Some ''ipn:1234''" "''ipn:1234''"]
  by simp

subsection \<open>Running the tree functions on concrete trees\<close>

text \<open>
  The rules below let the simplifier run the functions of the tree on a concrete tree: a
  sequenced step is unfolded once its first part has been computed, and a loop is unfolded
  once per pass, for a bound given as a numeral.
\<close>

lemma fbind_simps: "fbind (Inr x) f = f x" "fbind (Inl e) f = Inl e"
  by (simp_all add: fbind_def)
lemma deref_simps: "deref (Some a) g = g a" "deref None g = Inl NullDeref"
  by (simp_all add: deref_def)
lemma fbind_weak_cong: "m = m' \<Longrightarrow> fbind m f = fbind m' f" by simp
lemma deref_weak_cong: "p = p' \<Longrightarrow> deref p f = deref p' f" by simp

lemma rightmost_unfold:
  "rightmost fuel t a = (if fuel = 0 then Inl OutOfFuel
     else (case right (nd t a) of None \<Rightarrow> Inr a | Some b \<Rightarrow> rightmost (fuel - 1) t b))"
  by (cases fuel; hypsubst; unfold rightmost.simps diff_Suc_1; simp)
lemma leftmost_unfold:
  "leftmost fuel t a = (if fuel = 0 then Inl OutOfFuel
     else (case left (nd t a) of None \<Rightarrow> Inr a | Some b \<Rightarrow> leftmost (fuel - 1) t b))"
  by (cases fuel; hypsubst; unfold leftmost.simps diff_Suc_1; simp)
lemma push_block_unfold:
  "push_block k start t = (if k = 0 then Inr t
     else fbind (push_free_node t (Some start)) (push_block (k - 1) (Suc start)))"
  by (cases k; hypsubst; unfold push_block.simps diff_Suc_1; simp)
lemma inorder_nodes_unfold:
  "inorder_nodes fuel t p = (case p of None \<Rightarrow> Inr [] | Some a \<Rightarrow>
     if fuel = 0 then Inl OutOfFuel else
     fbind (inorder_nodes (fuel - 1) t (left (nd t a))) (\<lambda>ls.
       fbind (inorder_nodes (fuel - 1) t (right (nd t a))) (\<lambda>rs.
         Inr (ls @ [(node_value (nd t a), node_offset (nd t a), color (nd t a))] @ rs))))"
  by (cases p; cases fuel; hypsubst; unfold inorder_nodes.simps diff_Suc_1; simp)
lemma try_insert_rebalance_unfold:
  "try_insert_rebalance fuel t node = (if fuel = 0 then Inl OutOfFuel else
     deref node (\<lambda>a.
       let p = parent (nd t a) in
       fbind (get_uncle t node) (\<lambda>uncle.
         if p = None then set_black t node
         else if is_black t p then Inr t
         else if uncle \<noteq> None \<and> is_red t uncle then
           fbind (set_black t p) (\<lambda>t1.
             fbind (set_black t1 uncle) (\<lambda>t2.
               fbind (get_grandparent t2 node) (\<lambda>grandparent.
                 fbind (set_red t2 grandparent) (\<lambda>t3.
                   try_insert_rebalance (fuel - 1) t3 grandparent))))
         else rebalance_black_uncle t node)))"
  by (cases fuel; hypsubst; unfold try_insert_rebalance.simps diff_Suc_1; simp)
lemma delete_case_1_unfold:
  "delete_case_1 fuel t node = (if fuel = 0 then Inl OutOfFuel else
     fbind (is_root t node) (\<lambda>rt.
       if rt then Inr t
       else
         (case delete_case_2 t node of
            Inl e \<Rightarrow> Inl e
          | Inr (Inl (t', p)) \<Rightarrow> delete_case_1 (fuel - 1) t' p
          | Inr (Inr t') \<Rightarrow> Inr t')))"
  by (cases fuel; hypsubst; unfold delete_case_1.simps diff_Suc_1; simp)
lemma insert_or_merge_loop_unfold:
  "insert_or_merge_loop k fuel v t a = (if k = 0 then Inl OutOfFuel else
     (if are_consecutive v (node_value (nd t a)) then
        fbind (get_left_sucessor fuel t (Some a)) (\<lambda>sucessor.
          case sucessor of
            None \<Rightarrow>
              Inr (None, set_offset a (node_offset (nd t a) + 1) (set_value a v t))
          | Some s \<Rightarrow>
              if are_consecutive (node_value (nd t s) + node_offset (nd t s) - 1) v then
                (let t1 = set_value a (node_value (nd t s)) t;
                     t2 = set_offset a (node_offset (nd t1 a) + (node_offset (nd t1 s) + 1)) t1
                 in fbind (delete_node fuel t2 sucessor) (\<lambda>t3. Inr (None, t3)))
              else Inr (None, set_offset a (node_offset (nd t a) + 1) (set_value a v t)))
      else if v < node_value (nd t a) then
        (case left (nd t a) of
           Some l \<Rightarrow> insert_or_merge_loop (k - 1) fuel v t l
         | None \<Rightarrow>
             (case create_red_node v t of
                (None, t1) \<Rightarrow> Inr (None, t1)
              | (Some new_node, t1) \<Rightarrow> Inr (Some new_node, insert_child_left new_node a t1)))
      else if are_consecutive (node_value (nd t a) + node_offset (nd t a) - 1) v then
        fbind (get_right_sucessor fuel t (Some a)) (\<lambda>sucessor.
          case sucessor of
            None \<Rightarrow> Inr (None, set_offset a (node_offset (nd t a) + 1) t)
          | Some s \<Rightarrow>
              if are_consecutive v (node_value (nd t s)) then
                (let t1 = set_offset a (node_offset (nd t a) + (node_offset (nd t s) + 1)) t
                 in fbind (delete_node fuel t1 sucessor) (\<lambda>t2. Inr (None, t2)))
              else Inr (None, set_offset a (node_offset (nd t a) + 1) t))
      else if v > node_value (nd t a) then
        (case right (nd t a) of
           Some r \<Rightarrow> insert_or_merge_loop (k - 1) fuel v t r
         | None \<Rightarrow>
             (case create_red_node v t of
                (None, t1) \<Rightarrow> Inr (None, t1)
              | (Some new_node, t1) \<Rightarrow> Inr (Some new_node, insert_child_right new_node a t1)))
      else Inr (None, t)))"
  by (cases k; hypsubst; unfold insert_or_merge_loop.simps diff_Suc_1; simp)

lemmas rb_unfolds = rightmost_unfold leftmost_unfold push_block_unfold inorder_nodes_unfold
  try_insert_rebalance_unfold delete_case_1_unfold insert_or_merge_loop_unfold

lemmas rb_defs =
  nd_def set_left_def set_right_def set_parent_def set_color_def set_value_def set_offset_def
  fbind_simps deref_simps pop_free_node_def push_free_node_def set_black_def set_red_def
  is_black_def is_red_def get_grandparent_def is_root_def is_left_child_def get_sibling_def
  get_uncle_def has_left_child_def has_right_child_def swap_parents_def rotate_left_def
  rotate_right_def populate_rb_node_def create_black_node_def create_red_node_def
  insert_child_left_def insert_child_right_def get_left_sucessor_def get_right_sucessor_def
  get_sucessor_def swap_values_def swap_offsets_def replace_node_def delete_case_6_def
  delete_case_5_def delete_case_4_def delete_case_3_def delete_case_2_def
  delete_one_child_def delete_node_def are_consecutive_def is_empty_def is_full_def
  try_binary_insert_or_merge_def rebalance_black_uncle_def zero_node_def create_rb_tree_def
  insert_value_def insert_run_def insert_run_valid_def rb_tree_is_valid_def


subsection \<open>The tree of ranges: a value inside a stored range\<close>

text \<open>
  Claim C8 (after every sequence of inserts the stored ranges are pairwise disjoint and
  non-adjacent, \<open>A.value + A.offset < B.value\<close> for \<open>A.value < B.value\<close>): inserting 1, 2
  and 2 again into a tree of capacity 2 leaves the nodes \<open>{value 1, offset 2}\<close> and
  \<open>{value 2, offset 1}\<close>. The second insert extends the root to cover 1 and 2. The third
  finds 2 neither consecutive to the root nor below its value, then takes the branch
  \<open>value > node->value\<close>, which compares with the start of the range and not with its end,
  and adds a red node for 2: \<open>insert\<close> answers true, and \<open>1 + 2 < 2\<close> does not hold.
\<close>

theorem insert_inside_range_overlaps:
  "insert_run 10 2 [1, 2, 2] = Inr ([True, False, True], [(1, 2, False), (2, 1, True)])
   \<and> \<not> ranges_apart [(1, 2, False), (2, 1, True)]"
  by (simp add: rb_defs rb_unfolds Let_def cong: fbind_weak_cong deref_weak_cong let_weak_cong)

text \<open>
  Claim C6 (after any sequence of inserts and deletes the four validity invariants hold):
  the same defect breaks the fourth invariant. Inserting 10, 11, 12 and 11 again into a
  tree of capacity 4 gives a root \<open>{10, 3}\<close> with a red right child \<open>{11, 1}\<close>: the root is
  black, no red node has a red child and the black depths agree, but the ranges overlap,
  and the validity check fails.
\<close>

theorem validity_fails_after_repeated_value:
  "insert_run 10 4 [10, 11, 12, 11]
     = Inr ([True, False, False, True], [(10, 3, False), (11, 1, True)])
   \<and> insert_run_valid 10 4 [10, 11, 12, 11] = Inr False"
  by (simp add: rb_defs rb_unfolds Let_def cong: fbind_weak_cong deref_weak_cong let_weak_cong)

subsection \<open>The ACS reader\<close>

lemma ack_loop_each:
  "ack_each ack (map (\<lambda>i. c + of_nat i) [0 ..< k]) s = Inr (statuses, s')
     \<Longrightarrow> ack_loop ack c k s n = Inr (s', n + count_success statuses)"
proof (induction k arbitrary: c s n statuses)
  case 0
  then show ?case by (simp add: count_success_def)
next
  case (Suc k)
  have m: "map (\<lambda>i. c + of_nat i) [0 ..< Suc k] = c # map (\<lambda>i. (c + 1) + of_nat i) [0 ..< k]"
    by (simp add: map_upt_Suc del: upt_Suc)
  from Suc.prems obtain st s1 sts where
    a: "ack s c = Inr (st, s1)" and
    r: "ack_each ack (map (\<lambda>i. (c + 1) + of_nat i) [0 ..< k]) s1 = Inr (sts, s')" and
    e: "statuses = st # sts"
    unfolding m by (auto split: sum.splits prod.splits)
  show ?case
    using Suc.IH [OF r, of "if st = BP_SUCCESS then n + 1 else n"] a e
    by (simp add: count_success_def)
qed

lemma ack_each_split:
  "ack_each ack (xs @ ys) s = Inr (r, s2)
     \<Longrightarrow> \<exists>r1 r2 s1. ack_each ack xs s = Inr (r1, s1) \<and> ack_each ack ys s1 = Inr (r2, s2)
           \<and> r = r1 @ r2"
proof (induction xs arbitrary: s r)
  case Nil
  then show ?case by simp
next
  case (Cons x xs)
  from Cons.prems obtain st s' rest where
    a: "ack s x = Inr (st, s')" and b: "ack_each ack (xs @ ys) s' = Inr (rest, s2)"
    and c: "r = st # rest"
    by (auto split: sum.splits prod.splits)
  from Cons.IH [OF b] obtain r1 r2 s1 where
    "ack_each ack xs s' = Inr (r1, s1)" "ack_each ack ys s1 = Inr (r2, s2)" "rest = r1 @ r2"
    by blast
  then show ?case using a c by auto
qed

lemma count_success_append:
  "count_success (xs @ ys) = count_success xs + count_success ys"
  by (simp add: count_success_def)

lemma read_fills_unfold:
  "read_fills n rd rec rec_size fill =
     (if n = 0 then None
      else if index fill < rec_size then
        (case rd rec rec_size fill 0 of
           Inl e \<Rightarrow> None
         | Inr (ret, fill1, flags1) \<Rightarrow>
             if flags1 \<noteq> 0 then None
             else map_option (Cons (val fill1))
                    (read_fills (n - 1) rd rec rec_size (fill1\<lparr>index := ret\<rparr>)))
      else Some [])"
  by (cases n; hypsubst; unfold read_fills.simps diff_Suc_1; simp)

text \<open>The loop over the fills acknowledges the custody ids of the runs, in the order of
  the record, and adds the successful answers to the count.\<close>

lemma dacs_fill_loop_runs:
  "read_fills n rd rec rec_size fill = Some fills
     \<Longrightarrow> ack_each ack (acked_cids cidin (val cid) fills) s = Inr (statuses, s')
     \<Longrightarrow> dacs_fill_loop n rd ack rec rec_size True cid fill cidin 0 s cnt sdnvflags
           = Inr (cnt + count_success statuses, s', sdnvflags)"
proof (induction n arbitrary: fill fills cidin cid s cnt statuses)
  case 0
  then show ?case by simp
next
  case (Suc n)
  show ?case
  proof (cases "index fill < rec_size")
    case False
    with Suc.prems show ?thesis by (simp add: count_success_def)
  next
    case True
    with Suc.prems(1) obtain ret fill1 rest where
      rd: "rd rec rec_size fill 0 = Inr (ret, fill1, 0)" and
      rest: "read_fills n rd rec rec_size (fill1\<lparr>index := ret\<rparr>) = Some rest" and
      fills: "fills = val fill1 # rest"
      by (auto split: sum.splits prod.splits if_splits)
    show ?thesis
    proof (cases cidin)
      case False
      with Suc.prems(2) fills have
        "ack_each ack (acked_cids True (val (cid\<lparr>val := val cid + val fill1\<rparr>)) rest) s
           = Inr (statuses, s')"
        by simp
      from Suc.IH [OF rest this] show ?thesis
        using True rd False by simp
    next
      case c: True
      with Suc.prems(2) fills obtain r1 r2 s1 where
        a1: "ack_each ack (cid_run (val cid) (val fill1)) s = Inr (r1, s1)" and
        a2: "ack_each ack (acked_cids False (val (cid\<lparr>val := val cid + val fill1\<rparr>)) rest) s1
               = Inr (r2, s')" and
        st: "statuses = r1 @ r2"
        using ack_each_split [of ack "cid_run (val cid) (val fill1)"
                "acked_cids False (val cid + val fill1) rest" s statuses s']
        by auto
      have l: "ack_loop ack (val cid) (unat (val fill1)) s cnt = Inr (s1, cnt + count_success r1)"
        using ack_loop_each [of ack "val cid" "unat (val fill1)" s r1 s1 cnt] a1
        by (simp add: cid_run_def)
      from Suc.IH [OF rest a2, of "cnt + count_success r1"] show ?thesis
        using True rd c l st by (simp add: count_success_append)
    qed
  qed
qed

text \<open>
  Claim C9: \<open>dacs_read\<close> reads the first custody id at index 2 of the record, then the
  fills, alternately a run and a gap, until the record is exhausted; when bit 0 of the
  status byte is set, it calls the acknowledgment callback once for each custody id of each
  run, from the first custody id of the first run upwards, and returns the number of calls
  that answered \<open>BP_SUCCESS\<close>. The hypotheses say that the record is well formed for the
  reader in use: the reads raise no flag and no fault, and the callback does not fault.
\<close>

theorem dacs_read_acknowledges_runs:
  assumes "in_block rec BP_ACS_REC_STATUS_INDEX"
      and "(rec ! nat BP_ACS_REC_STATUS_INDEX) AND BP_ACS_ACK_MASK = BP_ACS_ACK_MASK"
      and "rd rec rec_size \<lparr>val = 0, index = 2, width = 0\<rparr> 0 = Inr (ret, cid, 0)"
      and "read_fills n rd rec rec_size \<lparr>val = 0, index = ret, width = 0\<rparr> = Some fills"
      and "ack_each ack (acked_cids True (val cid) fills) s = Inr (statuses, s')"
  shows "dacs_read n rd ack rec rec_size s sdnvflags = Inr (count_success statuses, s', sdnvflags)"
  using assms dacs_fill_loop_runs [of n rd rec rec_size "\<lparr>val = 0, index = ret, width = 0\<rparr>"
      fills ack True cid s statuses s' 0 sdnvflags]
  by (simp add: dacs_read_def)

text \<open>
  The record of the specification's scenario, which encodes the custody ids 1, 2, 3, 7,
  8 and 10 as first id 1, run 3, gap 3, run 2, gap 1, run 1: the callback is called with
  1, 2, 3, 7, 8, 10 in this order and the reader returns 6.
\<close>

theorem dacs_read_acknowledges_runs_witness:
  "dacs_read 6 sdnv_read log_ack [0x40, 0x01, 1, 3, 3, 2, 1, 1] 8 [] 0
     = Inr (6, [1, 2, 3, 7, 8, 10], 0)"
proof -
  let ?rec = "[0x40, 0x01, 1, 3, 3, 2, 1, 1] :: 8 word list"
  have rd: "\<And>i v. 2 \<le> i \<Longrightarrow> i < 8 \<Longrightarrow>
      sdnv_read ?rec 8 \<lparr>val = v, index = i, width = 0\<rparr> 0
        = Inr (i + 1, \<lparr>val = ucast (?rec ! nat i), index = i, width = 0\<rparr>, 0)"
  proof -
    fix i :: int and v :: "64 word"
    assume "2 \<le> i" "i < 8"
    then have "i \<in> {2, 3, 4, 5, 6, 7}" by auto
    then show "sdnv_read ?rec 8 \<lparr>val = v, index = i, width = 0\<rparr> 0
        = Inr (i + 1, \<lparr>val = ucast (?rec ! nat i), index = i, width = 0\<rparr>, 0)"
      by (auto simp: sdnv_read_def sdnv_read_from.simps in_block_def)
  qed
  have a: "in_block ?rec BP_ACS_REC_STATUS_INDEX"
    by (simp add: in_block_def BP_ACS_REC_STATUS_INDEX_def)
  have b: "(?rec ! nat BP_ACS_REC_STATUS_INDEX) AND BP_ACS_ACK_MASK = BP_ACS_ACK_MASK"
    by (simp add: BP_ACS_REC_STATUS_INDEX_def BP_ACS_ACK_MASK_def)
  have c: "sdnv_read ?rec 8 \<lparr>val = 0, index = 2, width = 0\<rparr> 0
             = Inr (3, \<lparr>val = 1, index = 2, width = 0\<rparr>, 0)"
    using rd [of 2 0] by simp
  have d: "read_fills 6 sdnv_read ?rec 8 \<lparr>val = 0, index = 3, width = 0\<rparr> = Some [3, 3, 2, 1, 1]"
    by (simp add: read_fills_unfold rd)
  have runs: "cid_run 1 3 = [1, 2, 3]" "cid_run 7 2 = [7, 8]" "cid_run 10 1 = [10]"
    by (simp_all add: cid_run_def upt_rec)
  have e: "ack_each log_ack (acked_cids True (val \<lparr>val = 1 :: 64 word, index = 2, width = 0\<rparr>)
                               [3, 3, 2, 1, 1]) []
             = Inr ([BP_SUCCESS, BP_SUCCESS, BP_SUCCESS, BP_SUCCESS, BP_SUCCESS, BP_SUCCESS],
                    [1, 2, 3, 7, 8, 10])"
    by (simp add: runs log_ack_def)
  show ?thesis
    using dacs_read_acknowledges_runs [OF a b c d e, of 0]
    by (simp add: count_success_def)
qed


subsection \<open>The active table and the custody ids\<close>

text \<open>
  The slot of a custody id is its remainder by the table size, when the size is a positive C
  \<open>int\<close>.
\<close>

lemma n64: "0 < n \<Longrightarrow> n < 2 ^ 31 \<Longrightarrow> unat (word_of_int n :: 64 word) = nat n"
  by (simp add: unat_eq_nat_uint uint_word_of_int)

lemma sint_ucast_small:
  fixes w :: "64 word"
  assumes "unat w < 2 ^ 31"
  shows "sint (ucast w :: 32 word) = int (unat w)"
proof -
  have "int (unat w) < int (2 ^ 31)" using assms by (rule iffD2 [OF of_nat_less_iff])
  then have u: "uint w < 2 ^ 31" by simp
  have u0: "0 \<le> uint w" by simp
  have "uint (ucast w :: 32 word) = take_bit 32 (uint w)"
    by (simp add: unsigned_ucast_eq)
  also have "\<dots> = uint w"
    by (rule take_bit_int_eq_self) (use u in simp_all)
  finally have a: "uint (ucast w :: 32 word) = uint w" .
  have b: "signed_take_bit 31 (uint w) = uint w"
    by (rule signed_take_bit_int_eq_self) (use u u0 in linarith)+
  have "sint (ucast w :: 32 word) = signed_take_bit 31 (uint (ucast w :: 32 word))"
    by (simp add: sint_uint)
  also have "\<dots> = uint w" unfolding a by (rule b)
  finally show ?thesis by simp
qed

lemma ati_of_mod:
  assumes "0 < n" "n < 2 ^ 31"
  shows "ati_of cid n = Inr (int (unat cid mod nat n))"
proof -
  have e: "unat (cid mod word_of_int n) = unat cid mod nat n"
    using assms by (simp add: unat_mod n64)
  have "unat cid mod nat n < nat n" using assms by simp
  moreover have "nat n < 2 ^ 31" using assms by (simp add: nat_less_iff)
  ultimately have lt: "unat (cid mod word_of_int n) < 2 ^ 31"
    using e by linarith
  show ?thesis using assms e sint_ucast_small [OF lt]
    by (simp add: ati_of_def)
qed

lemma covered_at_vacate:
  assumes "covered_at ss a b"
  shows "covered_at (ss[i := BP_SID_VACANT]) a b"
  unfolding covered_at_def
proof (intro allI impI)
  fix j assume j: "j < length (ss[i := BP_SID_VACANT])"
    and o: "ss[i := BP_SID_VACANT] ! j \<noteq> BP_SID_VACANT"
  then have "j \<noteq> i" by auto
  then have "ss ! j \<noteq> BP_SID_VACANT" using o by simp
  then show "\<exists>c\<ge>a. c < b \<and> c mod length (ss[i := BP_SID_VACANT]) = j"
    using assms j by (simp add: covered_at_def)
qed

lemma covered_at_bump_vacant:
  assumes "covered_at ss a b" and "ss ! (a mod length ss) = BP_SID_VACANT"
  shows "covered_at ss (Suc a) b"
  unfolding covered_at_def
proof (intro allI impI)
  fix i assume i: "i < length ss" and o: "ss ! i \<noteq> BP_SID_VACANT"
  then obtain c where c: "a \<le> c" "c < b" "c mod length ss = i"
    using assms(1) by (auto simp: covered_at_def)
  have "c \<noteq> a" using c(3) o assms(2) by auto
  then show "\<exists>c\<ge>Suc a. c < b \<and> c mod length ss = i" using c by (intro exI [of _ c]) auto
qed

lemma covered_at_bump_wrapped:
  assumes "covered_at ss a b" and "a + length ss < b"
  shows "covered_at ss (Suc a) b"
  unfolding covered_at_def
proof (intro allI impI)
  fix i assume i: "i < length ss" and o: "ss ! i \<noteq> BP_SID_VACANT"
  then obtain c where c: "a \<le> c" "c < b" "c mod length ss = i"
    using assms(1) by (auto simp: covered_at_def)
  show "\<exists>c\<ge>Suc a. c < b \<and> c mod length ss = i"
  proof (cases "c = a")
    case True
    then show ?thesis using c assms(2) i by (intro exI [of _ "a + length ss"]) auto
  next
    case False
    then show ?thesis using c by (intro exI [of _ c]) auto
  qed
qed

lemma covered_at_install:
  assumes "covered_at ss a b" and "a \<le> b"
  shows "covered_at (ss[b mod length ss := s]) a (Suc b)"
  unfolding covered_at_def
proof (intro allI impI)
  fix i assume i: "i < length (ss[b mod length ss := s])"
    and o: "ss[b mod length ss := s] ! i \<noteq> BP_SID_VACANT"
  show "\<exists>c\<ge>a. c < Suc b \<and> c mod length (ss[b mod length ss := s]) = i"
  proof (cases "i = b mod length ss")
    case True
    then show ?thesis using assms(2) by (intro exI [of _ b]) auto
  next
    case False
    then have "ss ! i \<noteq> BP_SID_VACANT" using o by simp
    then obtain c where c: "a \<le> c" "c < b" "c mod length ss = i"
      using assms(1) i by (auto simp: covered_at_def)
    then show ?thesis by (intro exI [of _ c]) auto
  qed
qed

lemma covered_at_count:
  assumes "covered_at ss a b"
  shows "length (filter (\<lambda>s. s \<noteq> BP_SID_VACANT) ss) \<le> b - a"
proof -
  have "{i. i < length ss \<and> ss ! i \<noteq> BP_SID_VACANT} \<subseteq> (\<lambda>c. c mod length ss) ` {a..<b}"
    using assms by (auto simp: covered_at_def image_iff) (metis atLeastLessThan_iff)
  then have "card {i. i < length ss \<and> ss ! i \<noteq> BP_SID_VACANT} \<le> card ((\<lambda>c. c mod length ss) ` {a..<b})"
    by (intro card_mono) auto
  also have "\<dots> \<le> card {a..<b}" by (rule card_image_le) simp
  finally show ?thesis by (simp add: length_filter_conv_card)
qed

lemma active_count_sids:
  "active_count ch = length (filter (\<lambda>s. s \<noteq> BP_SID_VACANT) (map sid (active_table ch)))"
  by (simp add: active_count_def filter_map comp_def)

lemma table_inv_bound:
  assumes "table_inv attr k ch"
  shows "active_count ch \<le> unat (current_active_cid ch - oldest_active_cid ch)"
proof -
  have le: "oldest_active_cid ch \<le> current_active_cid ch"
    using assms by (simp add: table_inv_def word_le_nat_alt)
  have "active_count ch \<le> unat (current_active_cid ch) - unat (oldest_active_cid ch)"
    using assms covered_at_count unfolding active_count_sids table_inv_def covered_def by blast
  then show ?thesis using le by (simp add: unat_sub)
qed

lemma sids_set_sid:
  "map sid (set_sid tbl i s) = (map sid tbl)[nat i := s]"
  by (simp add: set_sid_def map_update)

lemma sids_set_retx:
  "map sid (set_retx tbl i t) = map sid tbl"
  by (cases "nat i < length tbl") (simp_all add: set_retx_def list_eq_iff_nth_eq nth_list_update)

lemma length_set_sid [simp]: "length (set_sid tbl i s) = length tbl"
  by (simp add: set_sid_def)

lemma length_set_retx [simp]: "length (set_retx tbl i s) = length tbl"
  by (simp add: set_retx_def)

lemma table_inv_count [simp]:
  "table_inv attr k (count_lost ch) = table_inv attr k ch"
  "table_inv attr k (count_expired ch) = table_inv attr k ch"
  "table_inv attr k (count_retransmitted ch) = table_inv attr k ch"
  "table_inv attr k (count_transmitted ch) = table_inv attr k ch"
  by (simp_all add: table_inv_def covered_def count_lost_def count_expired_def
        count_retransmitted_def count_transmitted_def)

lemma table_inv_stats [simp]:
  "table_inv attr k (ch\<lparr>stats := x\<rparr>) = table_inv attr k ch"
  "table_inv attr k (ch\<lparr>ch_bundle := b\<rparr>) = table_inv attr k ch"
  by (simp_all add: table_inv_def covered_def)

lemma table_inv_retx [simp]:
  "table_inv attr k (ch\<lparr>active_table := set_retx (active_table ch) i t\<rparr>) = table_inv attr k ch"
  by (simp add: table_inv_def covered_def sids_set_retx)

lemma table_inv_mono: "table_inv attr k ch \<Longrightarrow> table_inv attr (Suc k) ch"
  by (simp add: table_inv_def)

lemma table_inv_clear:
  "table_inv attr k ch \<Longrightarrow> table_inv attr k (clear_entry ati ch)"
  by (simp add: table_inv_def covered_def clear_entry_def sids_set_sid covered_at_vacate)

lemma clear_bump: "clear_entry ati (bump_oldest ch) = bump_oldest (clear_entry ati ch)"
  by (simp add: clear_entry_def bump_oldest_def)

lemma unat_suc_below:
  fixes a b :: "'a::len word"
  assumes "a \<noteq> b" "unat a \<le> unat b"
  shows "unat (a + 1) = Suc (unat a)"
proof -
  have "unat a < unat b" using assms by (simp add: order_less_le word_unat_eq_iff)
  moreover have "unat b < 2 ^ LENGTH('a)" by (rule unsigned_less)
  moreover have "unat (1 :: 'a word) = 1" by simp
  ultimately have "unat a + unat (1 :: 'a word) < 2 ^ LENGTH('a)" by linarith
  then have "unat (a + 1) = unat a + unat (1 :: 'a word)" by (rule iffD1 [OF unat_add_lem])
  then show ?thesis by simp
qed

lemma table_inv_bump_vacant:
  assumes inv: "table_inv attr k ch" and ne: "oldest_active_cid ch \<noteq> current_active_cid ch"
    and sz: "0 < active_table_size attr" "active_table_size attr < 2 ^ 31"
    and ati: "ati_of (oldest_active_cid ch) (active_table_size attr) = Inr ati"
    and vac: "sid (active_table ch ! nat ati) = BP_SID_VACANT"
  shows "table_inv attr k (bump_oldest ch)"
proof -
  have len: "length (active_table ch) = nat (active_table_size attr)"
    using inv by (simp add: table_inv_def) linarith
  have a: "nat ati = unat (oldest_active_cid ch) mod length (active_table ch)"
    using ati ati_of_mod [OF sz] len by simp
  have lt: "nat ati < length (active_table ch)" using a len sz by simp
  have s: "unat (oldest_active_cid ch + 1) = Suc (unat (oldest_active_cid ch))"
    using ne inv by (intro unat_suc_below) (auto simp: table_inv_def)
  have "unat (oldest_active_cid ch) < unat (current_active_cid ch)"
    using ne inv by (simp add: table_inv_def order_less_le word_unat_eq_iff)
  moreover have "covered_at (map sid (active_table ch)) (Suc (unat (oldest_active_cid ch)))
      (unat (current_active_cid ch))"
    using inv vac a lt
    by (intro covered_at_bump_vacant) (simp_all add: table_inv_def covered_def)
  ultimately show ?thesis
    using inv s by (simp add: table_inv_def covered_def bump_oldest_def)
qed

lemma covered_at_drop:
  assumes cov: "covered_at ss a b" and lt: "a < b"
    and occ: "ss ! (b mod length ss) \<noteq> BP_SID_VACANT" and ne: "ss \<noteq> []"
  shows "covered_at (ss[b mod length ss := BP_SID_VACANT]) (Suc a) b"
proof (cases "a mod length ss = b mod length ss")
  case True
  have "b mod length ss < length ss" using ne by simp
  then have "ss[b mod length ss := BP_SID_VACANT] ! (a mod length (ss[b mod length ss := BP_SID_VACANT]))
      = BP_SID_VACANT"
    using True by simp
  then show ?thesis using covered_at_vacate [OF cov] by (intro covered_at_bump_vacant)
next
  case False
  have "b mod length ss < length ss" using ne by simp
  then obtain c where c: "a \<le> c" "c < b" "c mod length ss = b mod length ss"
    using cov occ unfolding covered_at_def by blast
  have "c \<noteq> a" using c(3) False by auto
  have "b mod length ss = c mod length ss" using c(3) by simp
  moreover have "c \<le> b" using c(2) by simp
  ultimately have "length ss dvd b - c" by (simp add: mod_eq_dvd_iff_nat)
  then have "length ss \<le> b - c" using c(2) by (intro dvd_imp_le) auto
  then have "a + length ss < b" using c \<open>c \<noteq> a\<close> by linarith
  then have "covered_at (ss[b mod length ss := BP_SID_VACANT]) (Suc a) b"
    using covered_at_vacate [OF cov, of "b mod length ss"]
    by (intro covered_at_bump_wrapped) simp_all
  then show ?thesis .
qed

lemma table_inv_facts:
  assumes inv: "table_inv attr k ch"
    and sz: "0 < active_table_size attr" "active_table_size attr < 2 ^ 31"
  shows "length (active_table ch) = nat (active_table_size attr)"
    and "active_table ch \<noteq> []"
    and "ati_of c (active_table_size (ch_attributes ch)) = Inr (int (unat c mod length (active_table ch)))"
    and "in_table (active_table ch) (int (unat c mod length (active_table ch)))"
proof -
  show len: "length (active_table ch) = nat (active_table_size attr)"
    using inv by (simp add: table_inv_def) linarith
  then show ne: "active_table ch \<noteq> []" using sz by auto
  show "ati_of c (active_table_size (ch_attributes ch)) = Inr (int (unat c mod length (active_table ch)))"
    using ati_of_mod [OF sz] len inv by (simp add: table_inv_def)
  show "in_table (active_table ch) (int (unat c mod length (active_table ch)))"
    using ne by (simp add: in_table_def)
qed

lemma table_inv_bump_clear:
  assumes inv: "table_inv attr k ch" and ne: "oldest_active_cid ch \<noteq> current_active_cid ch"
    and sz: "0 < active_table_size attr" "active_table_size attr < 2 ^ 31"
    and ati: "ati_of (oldest_active_cid ch) (active_table_size attr) = Inr ati"
  shows "table_inv attr k (bump_oldest (clear_entry ati ch))"
proof -
  have a: "ati = int (unat (oldest_active_cid ch) mod length (active_table ch))"
    using ati table_inv_facts(3) [OF inv sz] inv by (simp add: table_inv_def)
  have "nat ati < length (active_table ch)" using a table_inv_facts(2) [OF inv sz] by simp
  then have "sid (active_table (clear_entry ati ch) ! nat ati) = BP_SID_VACANT"
    by (simp add: clear_entry_def set_sid_def)
  then show ?thesis
    using ne ati by (intro table_inv_bump_vacant [OF table_inv_clear [OF inv] _ sz])
      (simp_all add: clear_entry_def)
qed

lemma table_inv_drop:
  assumes inv: "table_inv attr k ch" and ne: "oldest_active_cid ch \<noteq> current_active_cid ch"
    and sz: "0 < active_table_size attr" "active_table_size attr < 2 ^ 31"
    and ati: "ati_of (current_active_cid ch) (active_table_size attr) = Inr ati"
    and occ: "sid (active_table ch ! nat ati) \<noteq> BP_SID_VACANT"
  shows "table_inv attr k (clear_entry ati (bump_oldest ch))"
proof -
  let ?n = "length (active_table ch)"
  have a: "nat ati = unat (current_active_cid ch) mod ?n"
    using ati table_inv_facts(3) [OF inv sz] inv by (simp add: table_inv_def)
  have tne: "active_table ch \<noteq> []" by (rule table_inv_facts(2) [OF inv sz])
  have lt: "unat (oldest_active_cid ch) < unat (current_active_cid ch)"
    using ne inv by (simp add: table_inv_def order_less_le word_unat_eq_iff)
  have s: "unat (oldest_active_cid ch + 1) = Suc (unat (oldest_active_cid ch))"
    using ne inv by (intro unat_suc_below) (auto simp: table_inv_def)
  have "map sid (active_table ch) ! (unat (current_active_cid ch) mod length (map sid (active_table ch)))
      \<noteq> BP_SID_VACANT"
    using occ a tne by simp
  then have "covered_at ((map sid (active_table ch))[unat (current_active_cid ch)
        mod length (map sid (active_table ch)) := BP_SID_VACANT])
      (Suc (unat (oldest_active_cid ch))) (unat (current_active_cid ch))"
    using inv lt tne by (intro covered_at_drop) (simp_all add: table_inv_def covered_def)
  then show ?thesis
    using inv s lt a
    by (simp add: table_inv_def covered_def clear_entry_def bump_oldest_def sids_set_sid)
qed

lemma table_inv_install:
  assumes inv: "table_inv attr k ch" and k: "k + 2 < 2 ^ 64"
    and sz: "0 < active_table_size attr" "active_table_size attr < 2 ^ 31"
    and ati: "ati_of (current_active_cid ch) (active_table_size attr) = Inr ati"
  shows "table_inv attr (Suc k)
           (ch\<lparr>active_table := set_sid (active_table ch) ati s,
               current_active_cid := current_active_cid ch + 1\<rparr>)"
proof -
  let ?n = "length (active_table ch)"
  have a: "nat ati = unat (current_active_cid ch) mod ?n"
    using ati table_inv_facts(3) [OF inv sz] inv by (simp add: table_inv_def)
  have "unat (current_active_cid ch) \<le> k + 1" using inv by (simp add: table_inv_def)
  moreover have "unat (1 :: 64 word) = 1" by simp
  ultimately have "unat (current_active_cid ch) + unat (1 :: 64 word) < 2 ^ LENGTH(64)"
    using k by simp
  then have "unat (current_active_cid ch + 1) = unat (current_active_cid ch) + unat (1 :: 64 word)"
    by (rule iffD1 [OF unat_add_lem])
  then have s: "unat (current_active_cid ch + 1) = Suc (unat (current_active_cid ch))" by simp
  have "covered_at ((map sid (active_table ch))[unat (current_active_cid ch)
        mod length (map sid (active_table ch)) := s])
      (unat (oldest_active_cid ch)) (Suc (unat (current_active_cid ch)))"
    using inv by (intro covered_at_install) (simp_all add: table_inv_def covered_def)
  then show ?thesis
    using inv s a
    by (simp add: table_inv_def covered_def sids_set_sid)
qed

lemma table_inv_custody [simp]:
  "table_inv attr k (ch\<lparr>custody := c\<rparr>) = table_inv attr k ch"
  by (simp add: table_inv_def covered_def)

lemma lazy_sweep_size:
  "lazy_sweep_attr attr \<Longrightarrow> 0 < active_table_size attr"
  "lazy_sweep_attr attr \<Longrightarrow> active_table_size attr < 2 ^ 31"
  by (simp_all add: lazy_sweep_attr_def)

lemma wrap_check_inv:
  assumes r: "wrap_check env handle st1 v = Inr v'"
    and inv: "table_inv attr k (lv_ch v)" and la: "lazy_sweep_attr attr"
    and ne: "oldest_active_cid (lv_ch v) \<noteq> current_active_cid (lv_ch v)"
  shows "table_inv attr k (lv_ch v')"
proof -
  note sz = lazy_sweep_size [OF la]
  let ?ch = "lv_ch v"
  let ?ati = "int (unat (current_active_cid ?ch) mod length (active_table ?ch))"
  have at: "ch_attributes ?ch = attr" using inv by (simp add: table_inv_def)
  have a: "ati_of (current_active_cid ?ch) (active_table_size attr) = Inr ?ati"
    using table_inv_facts(3) [OF inv sz] at by simp
  have i: "in_table (active_table ?ch) ?ati" by (rule table_inv_facts(4) [OF inv sz])
  have nr: "wrap_response attr \<noteq> BP_WRAP_RESEND" using la by (simp add: lazy_sweep_attr_def)
  show ?thesis
  proof (cases "sid (active_table ?ch ! nat ?ati) = BP_SID_VACANT")
    case True
    then have "lv_ch v' = ?ch" using r a i at by (auto simp: wrap_check_def Let_def)
    then show ?thesis using inv by simp
  next
    case occ: False
    show ?thesis
    proof (cases "wrap_response attr = BP_WRAP_BLOCK")
      case True
      then have "lv_ch v' = ?ch" using r a i at occ nr by (auto simp: wrap_check_def Let_def)
      then show ?thesis using inv by simp
    next
      case False
      then have "lv_ch v' = count_lost (clear_entry ?ati (bump_oldest ?ch))"
        using r a i at occ nr by (auto simp: wrap_check_def Let_def)
      then show ?thesis using table_inv_drop [OF inv ne sz a occ] by simp
    qed
  qed
qed

lemma scan_step_inv:
  assumes r: "scan_step env handle sysnow v = Inr (v', again)"
    and inv: "table_inv attr k (lv_ch v)" and la: "lazy_sweep_attr attr"
    and ne: "oldest_active_cid (lv_ch v) \<noteq> current_active_cid (lv_ch v)"
  shows "table_inv attr k (lv_ch v')"
proof -
  note sz = lazy_sweep_size [OF la]
  let ?ch = "lv_ch v"
  let ?ati = "int (unat (oldest_active_cid ?ch) mod length (active_table ?ch))"
  have at: "ch_attributes ?ch = attr" using inv by (simp add: table_inv_def)
  have a: "ati_of (oldest_active_cid ?ch) (active_table_size attr) = Inr ?ati"
    using table_inv_facts(3) [OF inv sz] at by simp
  have i: "in_table (active_table ?ch) ?ati" by (rule table_inv_facts(4) [OF inv sz])
  have cr: "cid_reuse attr = 0" using la by (simp add: lazy_sweep_attr_def)
  note bc = table_inv_bump_clear [OF inv ne sz a]
  note c = table_inv_clear [OF inv, of ?ati]
  show ?thesis
  proof (cases "sid (active_table ?ch ! nat ?ati) = BP_SID_VACANT")
    case True
    then have "lv_ch v' = bump_oldest ?ch" using r a i at by (auto simp: scan_step_def Let_def)
    then show ?thesis using table_inv_bump_vacant [OF inv ne sz a True] by simp
  next
    case occ: False
    let ?v0 = "v\<lparr>lv_ati := ?ati, lv_sid := sid (active_table ?ch ! nat ?ati)\<rparr>"
    have "lv_ch v' = count_expired (bump_oldest (clear_entry ?ati ?ch))
        \<or> lv_ch v' = clear_entry ?ati (count_retransmitted (bump_oldest ?ch))
        \<or> lv_ch v' = count_lost (clear_entry ?ati ?ch)
        \<or> (\<exists>st1. wrap_check env handle st1 ?v0 = Inr v')"
      using r a i at occ cr
      by (auto simp: scan_step_def Let_def split: prod.splits if_splits option.splits sum.splits)
    moreover have "clear_entry ?ati (count_retransmitted (bump_oldest ?ch))
       = count_retransmitted (bump_oldest (clear_entry ?ati ?ch))"
      by (simp add: clear_entry_def count_retransmitted_def bump_oldest_def)
    moreover have "table_inv attr k (lv_ch v')" if "wrap_check env handle st1 ?v0 = Inr v'" for st1
      using wrap_check_inv [OF that _ la] inv ne by simp
    ultimately show ?thesis using bc c by auto
  qed
qed

lemma scan_loop_inv:
  assumes "scan_loop env handle sysnow v = Inr v'"
    and "table_inv attr k (lv_ch v)" and "lazy_sweep_attr attr"
  shows "table_inv attr k (lv_ch v')"
  using assms
proof (induction env handle sysnow v rule: scan_loop.induct)
  case (1 env handle sysnow v)
  show ?case
  proof (cases "lv_data v = None \<and> oldest_active_cid (lv_ch v) \<noteq> current_active_cid (lv_ch v)")
    case False
    then have "v' = v" using "1.prems"(1) by (subst (asm) scan_loop.simps) auto
    then show ?thesis using "1.prems" by simp
  next
    case True
    then obtain v1 again where s: "scan_step env handle sysnow v = Inr (v1, again)"
      and rest: "(if again then scan_loop env handle sysnow v1 else Inr v1) = Inr v'"
      using "1.prems"(1) by (subst (asm) scan_loop.simps) (auto split: sum.splits)
    have i1: "table_inv attr k (lv_ch v1)"
      using scan_step_inv [OF s "1.prems"(2,3)] True by simp
    show ?thesis
    proof (cases again)
      case True
      then show ?thesis using "1.IH" [OF \<open>lv_data v = None \<and> _\<close> s refl True _ i1 "1.prems"(3)] rest
        by simp
    next
      case False
      then show ?thesis using rest i1 by simp
    qed
  qed
qed

lemma deq_step_ch:
  assumes "deq_step env handle tmo sysnow v = Inr (v', again)"
  shows "lv_ch v' = lv_ch v \<or> lv_ch v' = count_expired (lv_ch v)"
  using assms
  by (auto simp: deq_step_def Let_def split: prod.splits if_splits option.splits)

lemma deq_loop_inv_aux:
  fixes env :: "'st bp_env"
  assumes "deq_loop env handle tmo sysnow v = Some r"
  shows "\<forall>v'. r = Inr v' \<longrightarrow> table_inv attr k (lv_ch v) \<longrightarrow> table_inv attr k (lv_ch v')"
proof (rule deq_loop.raw_induct [where P = "\<lambda>env handle tmo sysnow v r.
    \<forall>v'. r = Inr v' \<longrightarrow> table_inv attr k (lv_ch v) \<longrightarrow> table_inv attr k (lv_ch v')", OF _ assms])
  fix f :: "'st bp_env \<Rightarrow> int \<Rightarrow> int \<Rightarrow> bp_val_t \<Rightarrow> 'st load_vars \<Rightarrow> (fault + 'st load_vars) option"
    and env handle tmo sysnow v r
  assume IH: "\<And>env handle tmo sysnow v r. f env handle tmo sysnow v = Some r \<Longrightarrow>
      \<forall>v'. r = Inr v' \<longrightarrow> table_inv attr k (lv_ch v) \<longrightarrow> table_inv attr k (lv_ch v')"
    and body: "(if lv_data v = None
      then case deq_step env handle tmo sysnow v of Inl e \<Rightarrow> Some (Inl e)
           | Inr (v', again) \<Rightarrow> if again then f env handle tmo sysnow v' else Some (Inr v')
      else Some (Inr v)) = Some r"
  show "\<forall>v'. r = Inr v' \<longrightarrow> table_inv attr k (lv_ch v) \<longrightarrow> table_inv attr k (lv_ch v')"
  proof (intro allI impI)
    fix v' assume r: "r = Inr v'" and inv: "table_inv attr k (lv_ch v)"
    show "table_inv attr k (lv_ch v')"
    proof (cases "lv_data v = None")
      case False
      then show ?thesis using body r inv by (auto split: if_splits)
    next
      case True
      then obtain v1 again where s: "deq_step env handle tmo sysnow v = Inr (v1, again)"
        and rest: "(if again then f env handle tmo sysnow v1 else Some (Inr v1)) = Some (Inr v')"
        using body r by (auto split: sum.splits)
      have i1: "table_inv attr k (lv_ch v1)" using deq_step_ch [OF s] inv by auto
      show ?thesis
      proof (cases again)
        case True
        then show ?thesis using IH [of env handle tmo sysnow v1 "Inr v'"] rest i1 by simp
      next
        case False
        then show ?thesis using rest i1 by simp
      qed
    qed
  qed
qed

lemma deq_loop_inv:
  assumes "deq_loop env handle tmo sysnow v = Some (Inr v')"
    and "table_inv attr k (lv_ch v)"
  shows "table_inv attr k (lv_ch v')"
  using deq_loop_inv_aux [OF assms(1)] assms(2) by blast

lemma emit_inv:
  assumes r: "emit env malloc_ok handle sysnow buf sz v = Inr (v', buf')"
    and inv: "table_inv attr k (lv_ch v)" and la: "lazy_sweep_attr attr"
    and k: "k + 2 < 2 ^ 64"
  shows "table_inv attr (Suc k) (lv_ch v')"
proof -
  note sz = lazy_sweep_size [OF la]
  let ?ch = "lv_ch v"
  let ?ati = "int (unat (current_active_cid ?ch) mod length (active_table ?ch))"
  let ?inst = "?ch\<lparr>active_table := set_sid (active_table ?ch) ?ati (lv_sid v),
                     current_active_cid := current_active_cid ?ch + 1\<rparr>"
  have at: "ch_attributes ?ch = attr" using inv by (simp add: table_inv_def)
  have a: "ati_of (current_active_cid ?ch) (active_table_size (ch_attributes ?ch)) = Inr ?ati"
    by (rule table_inv_facts(3) [OF inv sz])
  have i: "in_table (active_table ?ch) ?ati" by (rule table_inv_facts(4) [OF inv sz])
  have "lv_ch v' = ?ch \<or> lv_ch v' = count_lost ?ch \<or> lv_ch v' = count_transmitted ?ch
      \<or> lv_ch v' = count_transmitted (?ch\<lparr>active_table := set_retx (active_table ?ch) (lv_ati v) sysnow\<rparr>)
      \<or> lv_ch v' = count_transmitted (?inst\<lparr>active_table := set_retx (active_table ?inst) ?ati sysnow\<rparr>)"
    using r a i
    by (auto simp: emit_def Let_def split: option.splits if_splits sum.splits prod.splits)
  moreover have "table_inv attr (Suc k) ?inst"
    using table_inv_install [OF inv k sz] a at by simp
  then have "table_inv attr (Suc k) (?inst\<lparr>active_table := set_retx (active_table ?inst) ?ati sysnow\<rparr>)"
    by (simp only: table_inv_retx)
  ultimately show ?thesis using table_inv_mono [OF inv] by auto
qed

lemma bplib_load_inv:
  assumes r: "bplib_load env malloc_ok time_err sysnow (Some ch) (Some buf) sz tmo (Some fl) st os
                = Some (Inr (status, Some ch', rest))"
    and inv: "table_inv attr k ch" and la: "lazy_sweep_attr attr"
    and k: "k + 2 < 2 ^ 64"
  shows "table_inv attr (Suc k) ch'"
proof -
  let ?fl0 = "if time_err then insert BP_FLAG_UNRELIABLETIME fl else fl"
  obtain cust1 fl1 st1 where cs:
    "env_custody_send env (custody ch) (dacs_rate (ch_attributes ch)) sysnow BP_CHECK ?fl0 st
       = (cust1, fl1, st1)"
    by (metis prod_cases3)
  obtain dstat out st2 where dq:
    "dequeue (env_store env) (bundle_handle (custody_bundle cust1)) BP_CHECK st1 = ((dstat, out), st2)"
    by (metis surj_pair)
  let ?v0 = "\<lparr>lv_status = BP_SUCCESS, lv_data = map_option fst out,
     lv_sid = (case out of None \<Rightarrow> BP_SID_VACANT | Some (d, n, s) \<Rightarrow> s),
     lv_ati = -1, lv_newcid = True,
     lv_flags = (if dstat = BP_SUCCESS then insert BP_FLAG_ROUTENEEDED fl1 else fl1),
     lv_ch = ch\<lparr>custody := cust1\<rparr>, lv_st = st2, lv_os = os\<rparr>"
  let ?handle = "if lv_data ?v0 = None then bundle_handle (ch_bundle (ch\<lparr>custody := cust1\<rparr>))
     else bundle_handle (custody_bundle cust1)"
  let ?scanned = "if lv_data ?v0 = None then
       (case scan_loop env ?handle sysnow (?v0\<lparr>lv_os := os @ [OS_LOCK (active_table_signal ch)]\<rparr>) of
          Inl e \<Rightarrow> Inl e
        | Inr v \<Rightarrow> Inr (v\<lparr>lv_os := lv_os v @ [OS_UNLOCK (active_table_signal ch)]\<rparr>))
     else Inr ?v0"
  have r': "(case ?scanned of
               Inl e \<Rightarrow> Some (Inl e)
             | Inr v1 \<Rightarrow>
                 (case deq_loop env ?handle tmo sysnow v1 of
                    None \<Rightarrow> None
                  | Some (Inl e) \<Rightarrow> Some (Inl e)
                  | Some (Inr v2) \<Rightarrow>
                      (case emit env malloc_ok ?handle sysnow buf sz v2 of
                         Inl e \<Rightarrow> Some (Inl e)
                       | Inr (v3, buf') \<Rightarrow>
                           Some (Inr (lv_status v3, Some (lv_ch v3), Some buf', Some (lv_flags v3),
                                      lv_st v3, lv_os v3)))))
            = Some (Inr (status, Some ch', rest))"
    using r unfolding bplib_load_def Let_def option.case cs dq prod.case by this
  define v0 where "v0 = ?v0"
  define handle where "handle =
    (if lv_data v0 = None then bundle_handle (ch_bundle (ch\<lparr>custody := cust1\<rparr>))
     else bundle_handle (custody_bundle cust1))"
  define scanned where "scanned =
    (if lv_data v0 = None then
       (case scan_loop env handle sysnow (v0\<lparr>lv_os := os @ [OS_LOCK (active_table_signal ch)]\<rparr>) of
          Inl e \<Rightarrow> Inl e
        | Inr v \<Rightarrow> Inr (v\<lparr>lv_os := lv_os v @ [OS_UNLOCK (active_table_signal ch)]\<rparr>))
     else Inr v0)"
  note r'' = r' [folded v0_def, folded handle_def, folded scanned_def]
  obtain v1 v2 v3 buf' where sc: "scanned = Inr v1"
    and v2: "deq_loop env handle tmo sysnow v1 = Some (Inr v2)"
    and v3: "emit env malloc_ok handle sysnow buf sz v2 = Inr (v3, buf')"
    and c: "ch' = lv_ch v3"
    using r'' by (auto split: sum.splits option.splits prod.splits)
  have i0: "table_inv attr k (lv_ch v0)" using inv by (simp add: v0_def)
  have "table_inv attr k (lv_ch v1)"
  proof (cases "lv_data v0 = None")
    case False
    then show ?thesis using sc i0 by (auto simp: scanned_def split: if_splits)
  next
    case True
    then obtain vb where "scan_loop env handle sysnow (v0\<lparr>lv_os := os @ [OS_LOCK (active_table_signal ch)]\<rparr>) = Inr vb"
      and "lv_ch v1 = lv_ch vb"
      using sc by (auto simp: scanned_def split: sum.splits)
    then show ?thesis using scan_loop_inv [OF _ _ la, of env handle sysnow _ vb k] i0 by simp
  qed
  then have "table_inv attr k (lv_ch v2)" using deq_loop_inv [OF v2] by simp
  then show ?thesis using emit_inv [OF v3 _ la k] c by simp
qed

lemma acknowledge_inv:
  assumes r: "acknowledge store cid (ch, st) = Inr (status, ch', st')"
    and inv: "table_inv attr k ch"
  shows "table_inv attr k ch'"
proof -
  have "ch' = ch \<or> (\<exists>ati. ch' = clear_entry ati ch)"
    using r
    by (auto simp: acknowledge_def Let_def clear_entry_def split: sum.splits if_splits prod.splits)
  then show ?thesis using inv table_inv_clear by auto
qed

lemma ack_each_inv:
  assumes "ack_each (\<lambda>s c. case acknowledge store c s of
                              Inl e \<Rightarrow> Inl e
                            | Inr (status, ch, st) \<Rightarrow> Inr (status, (ch, st))) cids cs
             = Inr (statuses, cs')"
    and "table_inv attr k (fst cs)"
  shows "table_inv attr k (fst cs')"
  using assms
proof (induction cids arbitrary: cs statuses)
  case Nil
  then show ?case by simp
next
  case (Cons c cids)
  obtain status ch1 st1 where a: "acknowledge store c (fst cs, snd cs) = Inr (status, ch1, st1)"
    using Cons.prems(1) by (auto split: sum.splits)
  then obtain rest where
    "ack_each (\<lambda>s c. case acknowledge store c s of
                              Inl e \<Rightarrow> Inl e
                            | Inr (status, ch, st) \<Rightarrow> Inr (status, (ch, st))) cids (ch1, st1)
       = Inr (rest, cs')"
    using Cons.prems(1) by (auto split: sum.splits)
  then show ?case
    using Cons.IH [of "(ch1, st1)" rest] acknowledge_inv [OF a Cons.prems(2)] by simp
qed

lemma process_acks_inv:
  assumes "process_acks store cids (ch, st) = Inr (ch', st')" and "table_inv attr k ch"
  shows "table_inv attr k ch'"
proof -
  let ?cs0 = "(ch\<lparr>stats := (stats ch)\<lparr>received := received (stats ch) + 1\<rparr>\<rparr>, st)"
  obtain statuses cs1 where
    a: "ack_each (\<lambda>s c. case acknowledge store c s of
                              Inl e \<Rightarrow> Inl e
                            | Inr (status, ch, st) \<Rightarrow> Inr (status, (ch, st))) cids ?cs0
          = Inr (statuses, cs1)"
    using assms(1) by (auto simp: process_acks_def split: sum.splits)
  have i: "table_inv attr k (fst cs1)"
    using assms(2) by (intro ack_each_inv [OF a]) simp
  have "ch' = (if count_success statuses > 0
               then (fst cs1)\<lparr>stats := (stats (fst cs1))\<lparr>acknowledged :=
                          acknowledged (stats (fst cs1)) + word_of_int (count_success statuses)\<rparr>\<rparr>
               else fst cs1)"
    using assms(1) a by (cases cs1) (auto simp: process_acks_def)
  then show ?thesis using i by (simp split: if_splits)
qed

lemma flush_step_inv:
  assumes r: "flush_step store (ch, st) = Inr (ch', st')"
    and inv: "table_inv attr k ch" and la: "lazy_sweep_attr attr"
    and ne: "oldest_active_cid ch \<noteq> current_active_cid ch"
  shows "table_inv attr k ch'"
proof -
  note sz = lazy_sweep_size [OF la]
  let ?ati = "int (unat (oldest_active_cid ch) mod length (active_table ch))"
  have at: "ch_attributes ch = attr" using inv by (simp add: table_inv_def)
  have a: "ati_of (oldest_active_cid ch) (active_table_size attr) = Inr ?ati"
    using table_inv_facts(3) [OF inv sz] at by simp
  have i: "in_table (active_table ch) ?ati" by (rule table_inv_facts(4) [OF inv sz])
  show ?thesis
  proof (cases "sid (active_table ch ! nat ?ati) = BP_SID_VACANT")
    case True
    then have "ch' = bump_oldest ch"
      using r a i at by (auto simp: flush_step_def Let_def bump_oldest_def)
    then show ?thesis using table_inv_bump_vacant [OF inv ne sz a True] by simp
  next
    case False
    then have "ch' = count_lost (bump_oldest (clear_entry ?ati ch))"
      using r a i at
      by (auto simp: flush_step_def Let_def bump_oldest_def clear_entry_def count_lost_def)
    then show ?thesis using table_inv_bump_clear [OF inv ne sz a] by simp
  qed
qed

lemma flush_loop_inv:
  assumes "flush_loop store cs = Inr cs'"
    and "table_inv attr k (fst cs)" and "lazy_sweep_attr attr"
  shows "table_inv attr k (fst cs')"
  using assms
proof (induction store cs rule: flush_loop.induct)
  case (1 store cs)
  show ?case
  proof (cases "oldest_active_cid (fst cs) \<noteq> current_active_cid (fst cs)")
    case False
    then have "cs' = cs" using "1.prems"(1) by (subst (asm) flush_loop.simps) auto
    then show ?thesis using "1.prems" by simp
  next
    case True
    then obtain cs1 where s: "flush_step store cs = Inr cs1"
      and rest: "flush_loop store cs1 = Inr cs'"
      using "1.prems"(1) by (subst (asm) flush_loop.simps) (auto split: sum.splits)
    have "table_inv attr k (fst cs1)"
      using flush_step_inv [of store "fst cs" "snd cs" "fst cs1" "snd cs1", OF _ "1.prems"(2,3) True] s
      by simp
    then show ?thesis using "1.IH" [OF True s rest _ "1.prems"(3)] by simp
  qed
qed

lemma bplib_store_inv:
  assumes "bplib_store v6_build v6_write (Some ch) (Some pay) (Some fl) st = (status, Some ch', st')"
    and "table_inv attr k ch"
  shows "table_inv attr k ch'"
proof -
  have "(\<exists>b. ch' = ch\<lparr>ch_bundle := b\<rparr>) \<or> (\<exists>b x. ch' = ch\<lparr>ch_bundle := b, stats := x\<rparr>)"
    using assms(1) by (auto simp: bplib_store_def Let_def split: prod.splits if_splits)
  then show ?thesis using assms(2) by auto
qed

lemma run_op_inv:
  assumes r: "run_op env op cs = Some cs'"
    and inv: "table_inv attr k (fst cs)" and la: "lazy_sweep_attr attr"
    and k: "k + 2 < 2 ^ 64"
  shows "table_inv attr (Suc k) (fst cs')"
proof (cases op)
  case (Op_store v6_build v6_write pay)
  then obtain status where
    "bplib_store v6_build v6_write (Some (fst cs)) (Some pay) (Some {}) (snd cs)
       = (status, Some (fst cs'), snd cs')"
    using r by (cases cs) (auto split: prod.splits option.splits)
  then have "table_inv attr k (fst cs')" using inv by (rule bplib_store_inv)
  then show ?thesis by (rule table_inv_mono)
next
  case (Op_load malloc_ok time_err sysnow buf sz tmo)
  then obtain status rest where
    "bplib_load env malloc_ok time_err sysnow (Some (fst cs)) (Some buf) sz tmo (Some {}) (snd cs) []
       = Some (Inr (status, Some (fst cs'), rest))"
    using r by (cases cs) (auto split: prod.splits option.splits sum.splits)
  then show ?thesis by (rule bplib_load_inv [OF _ inv la k])
next
  case (Op_acks cids)
  then have "process_acks (env_store env) cids (fst cs, snd cs) = Inr (fst cs', snd cs')"
    using r by (cases cs) (auto split: sum.splits)
  then have "table_inv attr k (fst cs')" using inv by (rule process_acks_inv)
  then show ?thesis by (rule table_inv_mono)
next
  case Op_flush
  then have "flush_loop (env_store env) cs = Inr cs'"
    using r by (cases cs) (auto simp: bplib_flush_def split: sum.splits prod.splits option.splits)
  then have "table_inv attr k (fst cs')" using inv la by (rule flush_loop_inv)
  then show ?thesis by (rule table_inv_mono)
qed

lemma run_ops_inv:
  assumes "run_ops env ops cs = Some cs'"
    and "table_inv attr k (fst cs)" and "lazy_sweep_attr attr"
    and "k + length ops + 1 < 2 ^ 64"
  shows "table_inv attr (k + length ops) (fst cs')"
  using assms
proof (induction ops arbitrary: cs k)
  case Nil
  then show ?case by simp
next
  case (Cons op ops)
  obtain cs1 where s: "run_op env op cs = Some cs1" and rest: "run_ops env ops cs1 = Some cs'"
    using Cons.prems(1) by (auto split: option.splits)
  have "table_inv attr (Suc k) (fst cs1)"
    using Cons.prems(4) by (intro run_op_inv [OF s Cons.prems(2,3)]) simp
  then show ?case using Cons.IH [OF rest _ Cons.prems(3), of "Suc k"] Cons.prems(4) by simp
qed

lemma open_channel_inv:
  assumes "lazy_sweep_attr attr"
  shows "table_inv attr 0 (open_channel attr bh ph dh)"
  using assms
  by (simp add: table_inv_def covered_def covered_at_def open_channel_def lazy_sweep_attr_def
      vacant_entry_def)

text \<open>
  Claim C3 says that in every reachable state \<open>current_active_cid - oldest_active_cid\<close>
  equals the number of occupied slots of the active table. The run \<open>load_load_ack\<close> ends
  in a state where the difference is 2 and one slot is occupied: \<open>acknowledge\<close> vacates the
  slot of custody id 1 and leaves \<open>oldest_active_cid\<close> where it is; only the scan of a later
  \<open>bplib_load\<close> (or \<open>bplib_flush\<close>) moves it past vacant slots.
\<close>

theorem active_count_differs_after_acknowledgment:
  "map_option active_span
     (run_ops ram_env load_load_ack (open_channel block_attributes 0 1 2, two_pending))
     = Some (2, 1)"
  by code_simp

text \<open>
  Claim C3, amended: on a channel that does not reuse custody ids and whose wrap response is
  to block or to drop, with a table size that is a positive C \<open>int\<close>, after any sequence of
  fewer than \<open>2^64 - 1\<close> store, load, acknowledgment and flush operations that all return,
  the number of occupied slots of the active table is at most \<open>current_active_cid -
  oldest_active_cid\<close>.
\<close>

theorem active_count_bounded:
  assumes "lazy_sweep_attr attr" and "length ops + 1 < 2 ^ 64"
    and "run_ops env ops (open_channel attr bh ph dh, st) = Some (ch, st')"
  shows "active_count ch \<le> unat (current_active_cid ch - oldest_active_cid ch)"
proof -
  have "table_inv attr (0 + length ops) (fst (ch, st'))"
    using assms(2) open_channel_inv [OF assms(1)]
    by (intro run_ops_inv [OF assms(3) _ assms(1)]) simp_all
  then show ?thesis using table_inv_bound by simp
qed

theorem active_count_bounded_witness:
  "lazy_sweep_attr block_attributes \<and> length load_load_ack + 1 < 2 ^ 64
   \<and> (\<exists>ch st. run_ops ram_env load_load_ack (open_channel block_attributes 0 1 2, two_pending)
                  = Some (ch, st)
               \<and> active_count ch \<le> unat (current_active_cid ch - oldest_active_cid ch))"
proof -
  have a: "lazy_sweep_attr block_attributes"
    by (simp add: lazy_sweep_attr_def block_attributes_def default_attributes_def
        BP_WRAP_BLOCK_def BP_WRAP_RESEND_def)
  have l: "length load_load_ack + 1 < 2 ^ 64" by (simp add: load_load_ack_def)
  have "map_option (\<lambda>cs. ())
          (run_ops ram_env load_load_ack (open_channel block_attributes 0 1 2, two_pending))
        = Some ()"
    by code_simp
  then obtain ch st where
    r: "run_ops ram_env load_load_ack (open_channel block_attributes 0 1 2, two_pending) = Some (ch, st)"
    by auto
  show ?thesis using a l r active_count_bounded [OF a l r] by blast
qed

end
